theory Spec2Isabelle
  imports Main "HOL-Library.Sublist"
begin

section \<open>String operations of the source language\<close>

text \<open>
  Python strings are modelled as \<open>string\<close> (lists of characters). The scrapers use
  \<open>str.startswith\<close>, \<open>str.endswith\<close>, the slices \<open>s[len(p):]\<close> and
  \<open>s[:-len(p)]\<close>, the substring test \<open>p in s\<close>, \<open>str.split(sep)\<close> and
  \<open>str.rstrip("/")\<close>.
\<close>

definition startswith :: "string \<Rightarrow> string \<Rightarrow> bool" where
  "startswith s p = (take (length p) s = p)"

definition endswith :: "string \<Rightarrow> string \<Rightarrow> bool" where
  "endswith s p = (length p \<le> length s \<and> drop (length s - length p) s = p)"

text \<open>\<open>s[len(p):]\<close> and \<open>s[:-len(p)]\<close> (the latter only used with a non-empty \<open>p\<close>).\<close>

definition strip_prefix :: "string \<Rightarrow> string \<Rightarrow> string" where
  "strip_prefix p s = drop (length p) s"

definition strip_suffix :: "string \<Rightarrow> string \<Rightarrow> string" where
  "strip_suffix p s = take (length s - length p) s"

text \<open>\<open>sub in s\<close>: some suffix of \<open>s\<close> starts with \<open>sub\<close>.\<close>

fun contains :: "string \<Rightarrow> string \<Rightarrow> bool" where
  "contains [] sub = (sub = [])"
| "contains (c # cs) sub = (startswith (c # cs) sub \<or> contains cs sub)"

text \<open>
  \<open>s.split(sep)\<close> for a non-empty separator: the occurrences of \<open>sep\<close> are found from
  left to right without overlap. (Python raises on an empty separator, which the
  scrapers never pass: they split on \<open>"."\<close> and \<open>"/app/"\<close>. On an empty separator
  the model returns the text uncut.)
\<close>

fun split_on :: "string \<Rightarrow> string \<Rightarrow> string list" where
  "split_on sep [] = [[]]"
| "split_on sep (c # cs) =
     (if sep \<noteq> [] \<and> startswith (c # cs) sep
      then [] # split_on sep (drop (length sep - 1) cs)
      else (case split_on sep cs of
              [] \<Rightarrow> [[c]]
            | p # ps \<Rightarrow> (c # p) # ps))"

definition rstrip_slash :: "string \<Rightarrow> string" where
  "rstrip_slash s = rev (dropWhile (\<lambda>c. c = CHR ''/'') (rev s))"

section \<open>Shared vocabulary of the three scrapers\<close>

text \<open>
  \<open>requests.get\<close> with \<open>raise_for_status\<close> either returns a document or raises; the
  exception is a value of type \<open>error\<close>, and a fetch is a value of \<open>error + 'a\<close>.
\<close>

datatype error = Timeout | HttpStatus nat | ConnectionFailed

definition MAX_RETRIES :: nat where
  "MAX_RETRIES = 3"

text \<open>
  What one run of a \<open>main\<close> leaves behind when it reaches its end: the list handed to the
  save function, the records rendered as feed entries, the strings printed between the
  commit-summary markers, one string for each call of \<open>print\<close> (\<open>None\<close> when the block
  is not printed), the exit code, and the requests issued after the listing fetch, in
  order. A printed string that holds a line break makes up more than one line of the
  output; \<open>printed_lines\<close> below gives the lines. A run that is ended by an uncaught
  exception is \<open>Inl\<close> of the error: it has saved nothing, since saving is the last but
  two step of every \<open>main\<close>.
\<close>

record ('a, 'q) run =
  saved :: "'a list"
  feed :: "'a list"
  summary :: "string list option"
  exit_code :: nat
  requests :: "'q list"

text \<open>
  \<open>print(s)\<close> writes \<open>s\<close> and a line break, so the lines that a list of printed strings
  makes up are the pieces of each string between its line breaks.
\<close>

definition printed_lines :: "string list \<Rightarrow> string list" where
  "printed_lines strs = concat (map (split_on [CHR 0x0A]) strs)"

text \<open>
  The answers of a run: each request of the log, numbered from \<open>t\<close> on, together with
  what the detail pages yield on that request.
\<close>

fun answers :: "(nat \<Rightarrow> string \<Rightarrow> 'r) \<Rightarrow> nat \<Rightarrow> string list \<Rightarrow> (string \<times> 'r) list" where
  "answers web t [] = []"
| "answers web t (url # asked) = (url, web t url) # answers web (Suc t) asked"

section \<open>Komood Store\<close>

subsection \<open>Identifier and title normalisation\<close>

text \<open>
  \<open>clean_product_id\<close> removes the prefix \<open>ausverkauft-\<close> once, and then the suffix
  \<open>-t-shirt\<close> once, in this order.
\<close>

definition clean_product_id :: "string \<Rightarrow> string" where
  "clean_product_id handle =
     (let cleaned = (if startswith handle ''ausverkauft-''
                     then strip_prefix ''ausverkauft-'' handle else handle)
      in if endswith cleaned ''-t-shirt''
         then strip_suffix ''-t-shirt'' cleaned else cleaned)"

text \<open>The second step of \<open>clean_product_id\<close> on its own, for the proofs.\<close>

definition strip_shirt_suffix :: "string \<Rightarrow> string" where
  "strip_shirt_suffix s = (if endswith s ''-t-shirt'' then strip_suffix ''-t-shirt'' s else s)"

definition clean_title :: "string \<Rightarrow> string" where
  "clean_title raw =
     (let title = (if startswith raw ''AUSVERKAUFT: ''
                   then strip_prefix ''AUSVERKAUFT: '' raw else raw)
      in if endswith title '' - T-Shirt'' then strip_suffix '' - T-Shirt'' title
         else if endswith title '' - T-shirt'' then strip_suffix '' - T-shirt'' title
         else title)"

subsection \<open>The paginated catalogue\<close>

text \<open>
  One product of a \<open>products.json\<close> page, as far as \<open>fetch_all_products\<close> reads it:
  the handle and the title (\<open>""\<close> when the key is absent), the formatted price
  (\<open>""\<close> when there is none), the body text after tag stripping and whitespace
  normalisation, and the source of the first image. Price formatting goes through
  floating point and the tag stripping through a regular expression; both results are
  taken as given.
\<close>

record raw_product =
  handle :: string
  raw_title :: string
  price :: string
  body_text :: string
  image_src :: string

record listed_product =
  lp_id :: string
  lp_title :: string
  lp_description :: string
  lp_url :: string
  lp_image :: string

record product =
  p_id :: string
  p_title :: string
  p_description :: string
  p_url :: string
  p_image :: string
  p_timestamp :: string

definition BASE_URL_komood :: string where
  "BASE_URL_komood = ''https://www.komood.store''"

text \<open>The separator is a bullet (U+2022, three bytes in UTF-8) between two spaces.\<close>

definition format_description :: "string \<Rightarrow> string \<Rightarrow> string" where
  "format_description pr txt =
     (if pr \<noteq> [] \<and> txt \<noteq> [] then pr @ '' '' @ [CHR 0xE2, CHR 0x80, CHR 0xA2] @ '' '' @ txt
      else if pr \<noteq> [] then pr
      else if txt \<noteq> [] then txt
      else [])"

text \<open>The body of the inner \<open>for\<close> loop: \<open>None\<close> when the product is not appended.\<close>

definition listed_of :: "raw_product \<Rightarrow> listed_product option" where
  "listed_of product =
     (let product_id = clean_product_id (handle product);
          title = clean_title (raw_title product)
      in if product_id \<noteq> [] \<and> title \<noteq> []
         then Some \<lparr>lp_id = product_id, lp_title = title,
                    lp_description = format_description (price product) (body_text product),
                    lp_url = BASE_URL_komood @ ''/products/'' @ handle product,
                    lp_image = image_src product\<rparr>
         else None)"

text \<open>
  The \<open>while True\<close> loop of \<open>fetch_all_products\<close>. The catalogue is a function from the
  page number to the outcome of \<open>fetch_json\<close> on that page: an exception, or the list
  under the key \<open>products\<close> (empty when the key is absent). The state of the loop is the
  page number, the products collected, and the page numbers requested so far.
\<close>

function fetch_pages ::
  "(nat \<Rightarrow> error + raw_product list) \<Rightarrow> nat \<Rightarrow> listed_product list \<Rightarrow> nat list
     \<Rightarrow> listed_product list \<times> nat list" where
  "fetch_pages api page all_products asked =
     (case api page of
        Inl e \<Rightarrow> (all_products, asked @ [page])
      | Inr products \<Rightarrow>
          if products = [] then (all_products, asked @ [page])
          else if page + 1 > 50
               then (all_products @ List.map_filter listed_of products, asked @ [page])
               else fetch_pages api (page + 1)
                      (all_products @ List.map_filter listed_of products) (asked @ [page]))"
  by pat_completeness auto
termination
  by (relation "measure (\<lambda>(api, page, all_products, asked). 51 - page)") auto

declare fetch_pages.simps [simp del]

definition fetch_all_products ::
  "(nat \<Rightarrow> error + raw_product list) \<Rightarrow> listed_product list \<times> nat list" where
  "fetch_all_products api = fetch_pages api 1 [] []"

text \<open>
  The three ways out of the loop, stated on the catalogue: a page stops the pagination
  when its fetch raises or its product list is empty, and \<open>last_page\<close> is the first
  such page among the pages 1 to 50, or 50 when there is none.
\<close>

definition page_stops :: "error + raw_product list \<Rightarrow> bool" where
  "page_stops r = (case r of Inl e \<Rightarrow> True | Inr products \<Rightarrow> products = [])"

definition last_page_from :: "(nat \<Rightarrow> error + raw_product list) \<Rightarrow> nat \<Rightarrow> nat" where
  "last_page_from api page =
     (case find (\<lambda>k. page_stops (api k)) [page..<51] of Some k \<Rightarrow> k | None \<Rightarrow> 50)"

definition last_page :: "(nat \<Rightarrow> error + raw_product list) \<Rightarrow> nat" where
  "last_page api = last_page_from api 1"

text \<open>What one page adds to \<open>all_products\<close>; a page whose fetch raises adds nothing.\<close>

definition page_products :: "(nat \<Rightarrow> error + raw_product list) \<Rightarrow> nat \<Rightarrow> listed_product list" where
  "page_products api k =
     (case api k of Inl e \<Rightarrow> [] | Inr products \<Rightarrow> List.map_filter listed_of products)"

subsection \<open>The run\<close>

definition with_timestamp :: "string \<Rightarrow> listed_product \<Rightarrow> product" where
  "with_timestamp now p =
     \<lparr>p_id = lp_id p, p_title = lp_title p, p_description = lp_description p,
      p_url = lp_url p, p_image = lp_image p, p_timestamp = now\<rparr>"

definition new_products_of :: "string \<Rightarrow> product list \<Rightarrow> listed_product list \<Rightarrow> product list" where
  "new_products_of now existing all_products =
     map (with_timestamp now)
       (filter (\<lambda>p. lp_id p \<notin> set (map p_id existing)) all_products)"

definition generate_rss_feed_komood :: "product list \<Rightarrow> product list" where
  "generate_rss_feed_komood products = filter (\<lambda>p. p_description p \<noteq> []) products"

text \<open>
  \<open>main\<close>: \<open>now\<close> is the clock reading, \<open>existing\<close> the rows of the stored file (none
  when the file does not exist).
\<close>

definition main_komood ::
  "string \<Rightarrow> product list \<Rightarrow> (nat \<Rightarrow> error + raw_product list)
     \<Rightarrow> error + (product, nat) run" where
  "main_komood now existing api =
     (let new_products = new_products_of now existing (fst (fetch_all_products api));
          merged = new_products @ existing
      in Inr \<lparr>saved = merged,
              feed = generate_rss_feed_komood merged,
              summary = (if new_products \<noteq> [] then Some (map p_title new_products) else None),
              exit_code = (if new_products \<noteq> [] then 0 else 1),
              requests = snd (fetch_all_products api)\<rparr>)"

section \<open>Augsburger Panther\<close>

subsection \<open>Discovery: stop at the first known URL\<close>

definition BASE_URL_panther :: string where
  "BASE_URL_panther = ''https://www.aev-panther.de''"

definition MAX_ARTICLES :: nat where
  "MAX_ARTICLES = 50"

text \<open>
  One \<open>div.news-item\<close> of the parsed listing, as far as \<open>parse_news_items\<close> reads it:
  \<open>link\<close> is the \<open>href\<close> of the first \<open>a\<close> element (\<open>None\<close> when there is no such
  element, \<open>Some ""\<close> when it has no \<open>href\<close>), \<open>spans\<close> the stripped texts of the
  spans of \<open>div.newsitem_link\<close>.
\<close>

record news_item =
  link :: "string option"
  spans :: "string list"

text \<open>A discovered candidate is the tuple (date, time, title, url).\<close>

type_synonym candidate = "string \<times> string \<times> string \<times> string"

definition german_date_to_iso :: "string \<Rightarrow> string" where
  "german_date_to_iso date_str =
     (if date_str = [] then []
      else (case split_on ''.'' date_str of
              [day, month, year] \<Rightarrow> year @ ''-'' @ month @ ''-'' @ day
            | _ \<Rightarrow> date_str))"

definition item_url :: "string \<Rightarrow> string" where
  "item_url href = (if startswith href ''http'' then href else BASE_URL_panther @ href)"

definition item_title :: "news_item \<Rightarrow> string" where
  "item_title item = (if length (spans item) \<ge> 2 then spans item ! 1 else [])"

definition item_date_text :: "news_item \<Rightarrow> string" where
  "item_date_text item = (if length (spans item) \<ge> 2 then spans item ! 0 else [])"

text \<open>
  The date pattern is matched by the regular-expression library; \<open>date_match\<close> stands
  for that match and returns the two groups (date, time) when the pattern matches.
\<close>

definition item_candidate ::
  "(string \<Rightarrow> (string \<times> string) option) \<Rightarrow> news_item \<Rightarrow> string \<Rightarrow> candidate" where
  "item_candidate date_match item url =
     (case date_match (item_date_text item) of
        Some (d, t) \<Rightarrow> (german_date_to_iso d, t, item_title item, url)
      | None \<Rightarrow> ([], [], item_title item, url))"

text \<open>The \<open>for\<close> loop of \<open>parse_news_items\<close>, with the list \<open>articles\<close> as accumulator.\<close>

fun parse_loop ::
  "(string \<Rightarrow> (string \<times> string) option) \<Rightarrow> string set \<Rightarrow> news_item list
     \<Rightarrow> candidate list \<Rightarrow> candidate list" where
  "parse_loop date_match existing_urls [] articles = articles"
| "parse_loop date_match existing_urls (item # rest) articles =
     (case link item of
        None \<Rightarrow> parse_loop date_match existing_urls rest articles
      | Some href \<Rightarrow>
          if item_url href \<in> existing_urls then articles
          else if item_title item \<noteq> [] \<and> item_url href \<noteq> []
          then (if length (articles @ [item_candidate date_match item (item_url href)])
                     \<ge> MAX_ARTICLES
                then articles @ [item_candidate date_match item (item_url href)]
                else parse_loop date_match existing_urls rest
                       (articles @ [item_candidate date_match item (item_url href)]))
          else parse_loop date_match existing_urls rest articles)"

definition parse_news_items ::
  "(string \<Rightarrow> (string \<times> string) option) \<Rightarrow> news_item list \<Rightarrow> string set
     \<Rightarrow> candidate list" where
  "parse_news_items date_match items existing_urls =
     parse_loop date_match existing_urls items []"

text \<open>
  The walk stated on the listing: an entry is known when it has a link whose URL is in
  the known set, and it yields a candidate when it has a link and a title.
\<close>

definition entry_known :: "string set \<Rightarrow> news_item \<Rightarrow> bool" where
  "entry_known existing_urls item =
     (case link item of None \<Rightarrow> False | Some href \<Rightarrow> item_url href \<in> existing_urls)"

definition entry_candidate ::
  "(string \<Rightarrow> (string \<times> string) option) \<Rightarrow> news_item \<Rightarrow> candidate option" where
  "entry_candidate date_match item =
     (case link item of
        None \<Rightarrow> None
      | Some href \<Rightarrow>
          if item_title item \<noteq> [] then Some (item_candidate date_match item (item_url href))
          else None)"

definition entries_above_known ::
  "(string \<Rightarrow> (string \<times> string) option) \<Rightarrow> string set \<Rightarrow> news_item list \<Rightarrow> candidate list" where
  "entries_above_known date_match existing_urls items =
     List.map_filter (entry_candidate date_match)
       (takeWhile (\<lambda>item. \<not> entry_known existing_urls item) items)"

subsection \<open>Enrichment with retry\<close>

record article =
  a_date :: string
  a_time :: string
  a_title :: string
  a_url :: string
  a_description :: string
  a_image :: string

text \<open>
  The detail pages are a function from the number of detail requests made before, and
  the URL, to what \<open>fetch_article_content\<close> yields on that request: an exception, or the
  extracted pair (teaser, image URL). The log of requested URLs is the state; a request
  appends to it.
\<close>

type_synonym article_web = "nat \<Rightarrow> string \<Rightarrow> error + string \<times> string"

text \<open>The \<open>for attempt\<close> loop, counted by the attempts that remain.\<close>

fun retry_content ::
  "article_web \<Rightarrow> string \<Rightarrow> nat \<Rightarrow> string list \<Rightarrow> (string \<times> string) option \<times> string list" where
  "retry_content web url 0 asked = (None, asked)"
| "retry_content web url (Suc k) asked =
     (case web (length asked) url of
        Inl e \<Rightarrow> retry_content web url k (asked @ [url])
      | Inr (description, img) \<Rightarrow>
          if description \<noteq> [] then (Some (description, img), asked @ [url])
          else retry_content web url k (asked @ [url]))"

definition fetch_article_content_with_retry ::
  "article_web \<Rightarrow> string \<Rightarrow> string list \<Rightarrow> (string \<times> string) option \<times> string list" where
  "fetch_article_content_with_retry web url asked = retry_content web url MAX_RETRIES asked"

text \<open>
  The loop over \<open>articles_needing_content\<close>. That list holds the records of \<open>merged\<close>
  with an empty description, in the order of \<open>merged\<close>, and the loop writes into these
  very records; so the model walks \<open>merged\<close>, passes over the records that have a
  description, and returns the list with the updates in place, the list
  \<open>updated_articles\<close>, and the request log.
\<close>

fun enrich_articles ::
  "article_web \<Rightarrow> article list \<Rightarrow> string list
     \<Rightarrow> article list \<times> article list \<times> string list" where
  "enrich_articles web [] asked = ([], [], asked)"
| "enrich_articles web (article # rest) asked =
     (if a_description article \<noteq> []
      then (case enrich_articles web rest asked of
              (merged, updated, asked') \<Rightarrow> (article # merged, updated, asked'))
      else (case fetch_article_content_with_retry web (a_url article) asked of
              (None, asked1) \<Rightarrow>
                (case enrich_articles web rest asked1 of
                   (merged, updated, asked') \<Rightarrow> (article # merged, updated, asked'))
            | (Some (description, img), asked1) \<Rightarrow>
                (case enrich_articles web rest asked1 of
                   (merged, updated, asked') \<Rightarrow>
                     (article\<lparr>a_description := description, a_image := img\<rparr> # merged,
                      article\<lparr>a_description := description, a_image := img\<rparr> # updated,
                      asked'))))"

subsection \<open>The run\<close>

definition new_article_dict :: "candidate \<Rightarrow> article" where
  "new_article_dict c =
     (case c of (d, t, title, url) \<Rightarrow>
        \<lparr>a_date = d, a_time = t, a_title = title, a_url = url,
         a_description = [], a_image = []\<rparr>)"

definition c_url :: "candidate \<Rightarrow> string" where
  "c_url c = (case c of (d, t, title, url) \<Rightarrow> url)"

definition c_title :: "candidate \<Rightarrow> string" where
  "c_title c = (case c of (d, t, title, url) \<Rightarrow> title)"

text \<open>The fields of a record that enrichment never writes.\<close>

definition a_core :: "article \<Rightarrow> string \<times> string \<times> string \<times> string" where
  "a_core a = (a_date a, a_time a, a_title a, a_url a)"

text \<open>A record was enriched in a run when its description went from empty to non-empty.\<close>

definition newly_enriched :: "article \<times> article \<Rightarrow> bool" where
  "newly_enriched ab = (a_description (fst ab) = [] \<and> a_description (snd ab) \<noteq> [])"

text \<open>
  The variables \<open>new_article_dicts\<close> and \<open>merged\<close> (after the trim) of \<open>main\<close>, as
  functions of the stored list and the listing.
\<close>

definition new_article_dicts ::
  "(string \<Rightarrow> (string \<times> string) option) \<Rightarrow> article list \<Rightarrow> news_item list \<Rightarrow> article list" where
  "new_article_dicts date_match existing items =
     map new_article_dict (parse_news_items date_match items (set (map a_url existing)))"

definition merged_panther ::
  "(string \<Rightarrow> (string \<times> string) option) \<Rightarrow> article list \<Rightarrow> news_item list \<Rightarrow> article list" where
  "merged_panther date_match existing items =
     take MAX_ARTICLES (new_article_dicts date_match existing items @ existing)"

definition generate_rss_feed_panther :: "article list \<Rightarrow> article list" where
  "generate_rss_feed_panther articles = filter (\<lambda>a. a_description a \<noteq> []) articles"

definition summary_line :: "article \<Rightarrow> string" where
  "summary_line a = a_date a @ '' '' @ a_title a"

text \<open>
  \<open>main\<close>: \<open>listing\<close> is the outcome of \<open>fetch_html(NEWS_URL)\<close>, already parsed into its
  news items. The webhook calls change none of the values below and are left out.
\<close>

definition main_panther ::
  "(string \<Rightarrow> (string \<times> string) option) \<Rightarrow> article list \<Rightarrow> error + news_item list
     \<Rightarrow> article_web \<Rightarrow> error + (article, string) run" where
  "main_panther date_match existing listing web =
     (case listing of
        Inl e \<Rightarrow> Inl e
      | Inr items \<Rightarrow>
          (case enrich_articles web (merged_panther date_match existing items) [] of
             (merged, updated_articles, asked) \<Rightarrow>
               Inr \<lparr>saved = merged,
                    feed = generate_rss_feed_panther merged,
                    summary = (if updated_articles \<noteq> []
                               then Some (map summary_line updated_articles) else None),
                    exit_code = (if updated_articles \<noteq> [] then 0 else 1),
                    requests = asked\<rparr>))"

section \<open>Homey App Store\<close>

subsection \<open>Discovery: skip known identifiers\<close>

definition MAX_APPS :: nat where
  "MAX_APPS = 50"

text \<open>The identifier of an app is cut out of its URL, here and in \<open>fetch_app_details\<close>.\<close>

definition app_id_of :: "string \<Rightarrow> string" where
  "app_id_of url = rstrip_slash (split_on ''/app/'' url ! 1)"

definition absolute_href :: "string \<Rightarrow> string" where
  "absolute_href href = (if startswith href ''/'' then ''https://homey.app'' @ href else href)"

text \<open>
  The loop over the links of the section, with the list \<open>new_app_urls\<close> as accumulator.
  The identifier is only read when the URL contains \<open>/app/\<close>, so that the second part of
  the split exists.
\<close>

fun new_apps_loop :: "string set \<Rightarrow> string list \<Rightarrow> string list \<Rightarrow> string list" where
  "new_apps_loop existing_ids [] new_app_urls = new_app_urls"
| "new_apps_loop existing_ids (href # rest) new_app_urls =
     (if href = [] then new_apps_loop existing_ids rest new_app_urls
      else if contains (absolute_href href) ''/app/''
      then (if app_id_of (absolute_href href) \<in> existing_ids
            then new_apps_loop existing_ids rest new_app_urls
            else if length (if absolute_href href \<notin> set new_app_urls
                            then new_app_urls @ [absolute_href href] else new_app_urls)
                      \<ge> MAX_APPS
            then (if absolute_href href \<notin> set new_app_urls
                  then new_app_urls @ [absolute_href href] else new_app_urls)
            else new_apps_loop existing_ids rest
                   (if absolute_href href \<notin> set new_app_urls
                    then new_app_urls @ [absolute_href href] else new_app_urls))
      else new_apps_loop existing_ids rest new_app_urls)"

text \<open>
  What the loop keeps true of \<open>new_app_urls\<close>: at most \<open>MAX_APPS\<close> URLs, no URL
  twice, and each with an identifier that is not known.
\<close>

definition new_app_urls_ok :: "string set \<Rightarrow> string list \<Rightarrow> bool" where
  "new_app_urls_ok ids acc = (length acc \<le> MAX_APPS \<and> distinct acc
     \<and> (\<forall>u \<in> set acc. contains u ''/app/'' \<and> app_id_of u \<notin> ids))"

text \<open>
  The parsed listing is \<open>None\<close> when no "New Apps" section is found, and otherwise the
  \<open>href\<close> values of the links that the selector finds in the section, in document order.
\<close>

definition parse_new_apps :: "string list option \<Rightarrow> string set \<Rightarrow> string list" where
  "parse_new_apps section_links existing_ids =
     (case section_links of
        None \<Rightarrow> []
      | Some hrefs \<Rightarrow> new_apps_loop existing_ids hrefs [])"

subsection \<open>Enrichment with retry\<close>

record app =
  app_id :: string
  app_name :: string
  app_description :: string
  app_url :: string
  app_image :: string
  app_developer :: string
  app_timestamp :: string

text \<open>
  What \<open>fetch_app_details\<close> extracts from a detail page, before it looks at the name:
  the text of the first heading, the description, the image and the developer.
\<close>

record app_page =
  pg_name :: string
  pg_description :: string
  pg_image :: string
  pg_developer :: string

type_synonym app_web = "nat \<Rightarrow> string \<Rightarrow> error + app_page"

text \<open>
  \<open>fetch_app_details\<close> on a fetched page: \<open>None\<close> without a name. The keys \<open>url\<close> and
  \<open>timestamp\<close> are added by \<open>main\<close>; they are empty here.
\<close>

definition url_app_id :: "string \<Rightarrow> string" where
  "url_app_id url = (if contains url ''/app/'' then app_id_of url else [])"

definition details_of :: "string \<Rightarrow> app_page \<Rightarrow> app option" where
  "details_of url pg =
     (if pg_name pg = [] then None
      else Some \<lparr>app_id = url_app_id url,
                 app_name = pg_name pg, app_description = pg_description pg,
                 app_url = [], app_image = pg_image pg, app_developer = pg_developer pg,
                 app_timestamp = []\<rparr>)"

fun retry_details ::
  "app_web \<Rightarrow> string \<Rightarrow> nat \<Rightarrow> string list \<Rightarrow> app option \<times> string list" where
  "retry_details web url 0 asked = (None, asked)"
| "retry_details web url (Suc k) asked =
     (case web (length asked) url of
        Inl e \<Rightarrow> retry_details web url k (asked @ [url])
      | Inr pg \<Rightarrow>
          (case details_of url pg of
             None \<Rightarrow> retry_details web url k (asked @ [url])
           | Some details \<Rightarrow>
               if app_name details \<noteq> [] then (Some details, asked @ [url])
               else retry_details web url k (asked @ [url])))"

definition fetch_app_details_with_retry ::
  "app_web \<Rightarrow> string \<Rightarrow> string list \<Rightarrow> app option \<times> string list" where
  "fetch_app_details_with_retry web url asked = retry_details web url MAX_RETRIES asked"

text \<open>The loop over \<open>new_app_urls\<close> in \<open>main\<close>, which builds \<open>new_apps\<close>.\<close>

fun fetch_new_apps ::
  "app_web \<Rightarrow> string \<Rightarrow> string list \<Rightarrow> string list \<Rightarrow> app list \<times> string list" where
  "fetch_new_apps web now [] asked = ([], asked)"
| "fetch_new_apps web now (url # rest) asked =
     (case fetch_app_details_with_retry web url asked of
        (None, asked1) \<Rightarrow> fetch_new_apps web now rest asked1
      | (Some details, asked1) \<Rightarrow>
          (case fetch_new_apps web now rest asked1 of
             (new_apps, asked') \<Rightarrow>
               (details\<lparr>app_url := url, app_timestamp := now\<rparr> # new_apps, asked')))"

subsection \<open>The run\<close>

definition generate_rss_feed_homey :: "app list \<Rightarrow> app list" where
  "generate_rss_feed_homey apps = filter (\<lambda>a. app_name a \<noteq> []) apps"

text \<open>The variables \<open>new_app_urls\<close> and \<open>new_apps\<close> of \<open>main\<close>.\<close>

definition new_app_urls :: "app list \<Rightarrow> string list option \<Rightarrow> string list" where
  "new_app_urls existing section_links =
     parse_new_apps section_links (set (map app_id existing))"

definition new_apps_of ::
  "app_web \<Rightarrow> string \<Rightarrow> app list \<Rightarrow> string list option \<Rightarrow> app list" where
  "new_apps_of web now existing section_links =
     fst (fetch_new_apps web now (new_app_urls existing section_links) [])"

definition main_homey ::
  "string \<Rightarrow> app list \<Rightarrow> error + string list option \<Rightarrow> app_web
     \<Rightarrow> error + (app, string) run" where
  "main_homey now existing listing web =
     (case listing of
        Inl e \<Rightarrow> Inl e
      | Inr section_links \<Rightarrow>
          (case fetch_new_apps web now (new_app_urls existing section_links) [] of
             (new_apps, asked) \<Rightarrow>
               Inr \<lparr>saved = take MAX_APPS (new_apps @ existing),
                    feed = generate_rss_feed_homey (take MAX_APPS (new_apps @ existing)),
                    summary = (if new_apps \<noteq> [] then Some (map app_name new_apps) else None),
                    exit_code = (if new_apps \<noteq> [] then 0 else 1),
                    requests = asked\<rparr>))"

section \<open>Answers that enrich\<close>

text \<open>
  An answer enriches an article when it is a page with a non-empty teaser; it then
  gives the URL, the teaser and the image. An answer enriches an app when it is a page
  with a name; it then gives the record to be stored for the URL: the identifier cut
  out of the URL, the fields of the page, the URL and the clock reading. Both are
  stated on the answer alone. \<open>named_details\<close> is \<open>fetch_app_details\<close> on an answer,
  for the proofs.
\<close>

definition fetched_content ::
  "string \<times> (error + string \<times> string) \<Rightarrow> (string \<times> string \<times> string) option" where
  "fetched_content x =
     (case snd x of
        Inl e \<Rightarrow> None
      | Inr (description, img) \<Rightarrow>
          if description \<noteq> [] then Some (fst x, description, img) else None)"

definition named_details :: "string \<times> (error + app_page) \<Rightarrow> app option" where
  "named_details x = (case snd x of Inl e \<Rightarrow> None | Inr pg \<Rightarrow> details_of (fst x) pg)"

definition stored_app :: "string \<Rightarrow> string \<times> (error + app_page) \<Rightarrow> app option" where
  "stored_app now x =
     (case snd x of
        Inl e \<Rightarrow> None
      | Inr pg \<Rightarrow>
          if pg_name pg = [] then None
          else Some \<lparr>app_id = url_app_id (fst x), app_name = pg_name pg,
                     app_description = pg_description pg, app_url = fst x,
                     app_image = pg_image pg, app_developer = pg_developer pg,
                     app_timestamp = now\<rparr>)"

definition enrichment :: "article \<Rightarrow> string \<times> string \<times> string" where
  "enrichment a = (a_url a, a_description a, a_image a)"

section \<open>Example inputs\<close>

text \<open>
  Small inputs on which the theorems below are instantiated: a listing entry and the
  record it becomes, a stored record, and detail pages that always fail or always
  answer.
\<close>

definition ex_date_match :: "string \<Rightarrow> (string \<times> string) option" where
  "ex_date_match s =
     (if s = ''01.03.2025 | 19:30 Uhr'' then Some (''01.03.2025'', ''19:30'') else None)"

definition ex_item :: news_item where
  "ex_item = \<lparr>link = Some ''/panther/news/neu.html'',
              spans = [''01.03.2025 | 19:30 Uhr'', ''Neu'']\<rparr>"

definition ex_pending :: article where
  "ex_pending = \<lparr>a_date = ''2025-03-01'', a_time = ''19:30'', a_title = ''Neu'',
                 a_url = ''https://www.aev-panther.de/panther/news/neu.html'',
                 a_description = [], a_image = []\<rparr>"

definition ex_enriched :: article where
  "ex_enriched = ex_pending\<lparr>a_description := ''Teaser'', a_image := ''bild.jpg''\<rparr>"

definition ex_old :: article where
  "ex_old = \<lparr>a_date = ''2025-02-01'', a_time = ''10:00'', a_title = ''Alt'',
             a_url = ''https://www.aev-panther.de/panther/news/alt.html'',
             a_description = ''Text'', a_image = []\<rparr>"

definition web_down :: article_web where
  "web_down n url = Inl Timeout"

definition web_up :: article_web where
  "web_up n url = Inr (''Teaser'', ''bild.jpg'')"

definition ex_raw :: raw_product where
  "ex_raw = \<lparr>handle = ''panther-t-shirt'', raw_title = ''Panther - T-Shirt'',
             price = [], body_text = ''Baumwolle'', image_src = []\<rparr>"

definition ex_product :: product where
  "ex_product = \<lparr>p_id = ''panther'', p_title = ''Panther'', p_description = ''Baumwolle'',
                 p_url = ''https://www.komood.store/products/panther-t-shirt'',
                 p_image = [], p_timestamp = ''2025-03-01T10:00:00+01:00''\<rparr>"

definition ex_old_product :: product where
  "ex_old_product = \<lparr>p_id = ''loewe'', p_title = ''Loewe'', p_description = ''Leinen'',
                     p_url = ''https://www.komood.store/products/loewe'',
                     p_image = [], p_timestamp = ''2025-01-01T10:00:00+01:00''\<rparr>"

definition ex_api :: "nat \<Rightarrow> error + raw_product list" where
  "ex_api n = (if n = 1 then Inr [ex_raw] else Inr [])"

definition ex_app :: app where
  "ex_app = \<lparr>app_id = ''neu'', app_name = ''Neu'', app_description = ''Eine App'',
             app_url = ''https://homey.app/en-us/app/neu/'', app_image = [],
             app_developer = [], app_timestamp = ''2025-03-01T10:00:00+01:00''\<rparr>"

definition ex_old_app :: app where
  "ex_old_app = \<lparr>app_id = ''alt'', app_name = ''Alt'', app_description = [],
                 app_url = ''https://homey.app/en-us/app/alt/'', app_image = [],
                 app_developer = [], app_timestamp = ''2025-01-01T10:00:00+01:00''\<rparr>"

definition app_web_down :: app_web where
  "app_web_down n url = Inl Timeout"

definition app_web_up :: app_web where
  "app_web_up n url =
     Inr \<lparr>pg_name = ''Neu'', pg_description = ''Eine App'', pg_image = [], pg_developer = []\<rparr>"

section \<open>Facts about the string operations\<close>

lemma startswith_append_same: "startswith (p @ s) p"
  by (simp add: startswith_def)

lemma strip_prefix_append_same: "strip_prefix p (p @ s) = s"
  by (simp add: strip_prefix_def)

lemma startswith_length: "startswith s p \<Longrightarrow> length p \<le> length s"
  unfolding startswith_def by (metis length_take min.cobounded1)

lemma startswith_decompose: "startswith s p \<Longrightarrow> s = p @ strip_prefix p s"
  unfolding startswith_def strip_prefix_def by (metis append_take_drop_id)

lemma endswith_append_left: "endswith s x \<Longrightarrow> endswith (p @ s) x"
  by (auto simp: endswith_def)

section \<open>Komood Store: the identifier under sale decoration\<close>

lemma clean_product_id_alt:
  "clean_product_id h =
     (if startswith h ''ausverkauft-''
      then strip_shirt_suffix (strip_prefix ''ausverkauft-'' h) else strip_shirt_suffix h)"
  by (cases "startswith h ''ausverkauft-''")
     (simp_all add: clean_product_id_def strip_shirt_suffix_def Let_def)

lemma length_strip_shirt_suffix:
  "length s - length ''-t-shirt'' \<le> length (strip_shirt_suffix s)
     \<and> length (strip_shirt_suffix s) \<le> length s"
  by (simp add: strip_shirt_suffix_def strip_suffix_def)

lemma strip_shirt_suffix_append: "strip_shirt_suffix (s @ ''-t-shirt'') = s"
  by (simp add: strip_shirt_suffix_def strip_suffix_def endswith_def)

lemma strip_shirt_suffix_id: "\<not> endswith s ''-t-shirt'' \<Longrightarrow> strip_shirt_suffix s = s"
  by (simp add: strip_shirt_suffix_def)

lemma clean_sale_prefixed: "clean_product_id (''ausverkauft-'' @ r) = strip_shirt_suffix r"
  by (simp only: clean_product_id_alt startswith_append_same strip_prefix_append_same if_True)

lemma clean_not_prefixed:
  "\<not> startswith h ''ausverkauft-'' \<Longrightarrow> clean_product_id h = strip_shirt_suffix h"
  by (simp only: clean_product_id_alt if_False)

text \<open>
  The suffix can complete a sale prefix only in one way: the last character of the
  prefix is the first of the suffix.
\<close>

lemma overlap_sale_suffix_all:
  "\<forall>n \<in> set [0..<12]. take (12 - n) ''-t-shirt'' = drop n ''ausverkauft-'' \<longrightarrow> n = 11"
  by code_simp

lemma overlap_sale_suffix:
  assumes "n < 12" and "take (12 - n) ''-t-shirt'' = drop n ''ausverkauft-''"
  shows "n = 11"
  using assms overlap_sale_suffix_all by simp

lemma length_sale_prefix: "length ''ausverkauft-'' = 12"
  by simp

lemma startswith_append_suffix:
  "startswith (h @ ''-t-shirt'') ''ausverkauft-'' \<longleftrightarrow>
     startswith h ''ausverkauft-'' \<or> h = ''ausverkauft''"
proof (cases "12 \<le> length h")
  case True
  then have "h \<noteq> ''ausverkauft''" by auto
  moreover from True have "take 12 (h @ ''-t-shirt'') = take 12 h" by simp
  ultimately show ?thesis by (simp only: startswith_def length_sale_prefix simp_thms)
next
  case False
  then have n: "length h < 12" by simp
  have ns: "\<not> startswith h ''ausverkauft-''"
  proof
    assume "startswith h ''ausverkauft-''"
    then have "length ''ausverkauft-'' \<le> length h" by (rule startswith_length)
    then have "12 \<le> length h" by (simp only: length_sale_prefix)
    with n show False by simp
  qed
  show ?thesis
  proof
    assume "startswith (h @ ''-t-shirt'') ''ausverkauft-''"
    then have "take 12 (h @ ''-t-shirt'') = ''ausverkauft-''"
      by (simp only: startswith_def length_sale_prefix)
    moreover have "take 12 (h @ ''-t-shirt'') = h @ take (12 - length h) ''-t-shirt''"
      using n by (simp only: take_append) simp
    ultimately have eq: "h @ take (12 - length h) ''-t-shirt'' = ''ausverkauft-''"
      by simp
    then have "drop (length h) (h @ take (12 - length h) ''-t-shirt'')
        = drop (length h) ''ausverkauft-''"
      by (rule arg_cong)
    then have "take (12 - length h) ''-t-shirt'' = drop (length h) ''ausverkauft-''"
      by (simp only: drop_append drop_all order_refl diff_self_eq_0 drop_0 append_Nil)
    with n have l: "length h = 11" by (rule overlap_sale_suffix)
    from eq have "take (length h) (h @ take (12 - length h) ''-t-shirt'')
        = take (length h) ''ausverkauft-''"
      by (rule arg_cong)
    then have "h = take (length h) ''ausverkauft-''"
      by (simp only: take_append take_all order_refl diff_self_eq_0 take_0 append_Nil2)
    then have "h = take 11 ''ausverkauft-''" by (simp only: l)
    then show "startswith h ''ausverkauft-'' \<or> h = ''ausverkauft''" by simp
  next
    assume "startswith h ''ausverkauft-'' \<or> h = ''ausverkauft''"
    with ns have "h = ''ausverkauft''" by simp
    then show "startswith (h @ ''-t-shirt'') ''ausverkauft-''" by (simp add: startswith_def)
  qed
qed

lemma clean_sale_prefix_iff:
  "clean_product_id (''ausverkauft-'' @ h) = clean_product_id h
     \<longleftrightarrow> \<not> startswith h ''ausverkauft-''"
proof (cases "startswith h ''ausverkauft-''")
  case False
  then show ?thesis
    by (simp only: clean_sale_prefixed clean_not_prefixed simp_thms)
next
  case True
  define r where "r = strip_prefix ''ausverkauft-'' h"
  from True have h: "h = ''ausverkauft-'' @ r" unfolding r_def by (rule startswith_decompose)
  have "length h = 12 + length r" by (subst h) (simp only: length_append length_sale_prefix)
  moreover have "length h - length ''-t-shirt'' \<le> length (strip_shirt_suffix h)"
    using length_strip_shirt_suffix [of h] by simp
  moreover have "length (strip_shirt_suffix r) \<le> length r"
    using length_strip_shirt_suffix [of r] by simp
  ultimately have "length (strip_shirt_suffix h) \<noteq> length (strip_shirt_suffix r)"
    by simp
  then have "strip_shirt_suffix h \<noteq> strip_shirt_suffix r" by auto
  moreover have "clean_product_id (''ausverkauft-'' @ h) = strip_shirt_suffix h"
    by (rule clean_sale_prefixed)
  moreover have "clean_product_id h = strip_shirt_suffix r"
    by (subst h) (rule clean_sale_prefixed)
  ultimately show ?thesis using True by (simp only: simp_thms)
qed

lemma clean_shirt_suffix:
  assumes "\<not> endswith h ''-t-shirt''" "h \<noteq> ''ausverkauft''"
  shows "clean_product_id (h @ ''-t-shirt'') = clean_product_id h"
proof (cases "startswith h ''ausverkauft-''")
  case True
  define r where "r = strip_prefix ''ausverkauft-'' h"
  from True have h: "h = ''ausverkauft-'' @ r" unfolding r_def by (rule startswith_decompose)
  from assms(1) have "\<not> endswith r ''-t-shirt''"
    using endswith_append_left [of r "''-t-shirt''" "''ausverkauft-''"] h by auto
  then have 1: "strip_shirt_suffix r = r" by (rule strip_shirt_suffix_id)
  have 2: "strip_shirt_suffix (r @ ''-t-shirt'') = r" by (rule strip_shirt_suffix_append)
  have "clean_product_id (''ausverkauft-'' @ (r @ ''-t-shirt'')) = r"
    using 2 by (simp only: clean_sale_prefixed)
  moreover have "clean_product_id (''ausverkauft-'' @ r) = r"
    using 1 by (simp only: clean_sale_prefixed)
  ultimately have "clean_product_id ((''ausverkauft-'' @ r) @ ''-t-shirt'')
      = clean_product_id (''ausverkauft-'' @ r)"
    by (simp only: append_assoc)
  then show ?thesis by (simp only: h [symmetric])
next
  case False
  with assms(2) have "\<not> startswith (h @ ''-t-shirt'') ''ausverkauft-''"
    by (simp only: startswith_append_suffix simp_thms)
  then have "clean_product_id (h @ ''-t-shirt'') = strip_shirt_suffix (h @ ''-t-shirt'')"
    by (rule clean_not_prefixed)
  moreover have "clean_product_id h = strip_shirt_suffix h"
    using False by (rule clean_not_prefixed)
  moreover have "strip_shirt_suffix h = h" using assms(1) by (rule strip_shirt_suffix_id)
  ultimately show ?thesis by (simp only: strip_shirt_suffix_append)
qed

text \<open>
  Claim C9, as the code has it. Prepending the sale prefix leaves the identifier
  unchanged exactly for the handles that do not already start with the sale prefix, and
  appending the format suffix leaves it unchanged for every handle that does not
  already end with the suffix and is not the bare word \<open>ausverkauft\<close>: each decoration
  is removed once, the prefix before the suffix.
\<close>

theorem clean_product_id_decoration:
  "(clean_product_id (''ausverkauft-'' @ h) = clean_product_id h
      \<longleftrightarrow> \<not> startswith h ''ausverkauft-'')
   \<and> (\<not> endswith h ''-t-shirt'' \<and> h \<noteq> ''ausverkauft''
        \<longrightarrow> clean_product_id (h @ ''-t-shirt'') = clean_product_id h)"
  using clean_sale_prefix_iff [of h] clean_shirt_suffix [of h] by blast

theorem clean_product_id_decoration_witness:
  "\<not> startswith ''panther'' ''ausverkauft-'' \<and> \<not> endswith ''panther'' ''-t-shirt''
   \<and> ''panther'' \<noteq> ''ausverkauft''
   \<and> clean_product_id (''ausverkauft-'' @ ''panther'') = clean_product_id ''panther''
   \<and> clean_product_id (''panther'' @ ''-t-shirt'') = clean_product_id ''panther''"
proof -
  have a: "\<not> startswith ''panther'' ''ausverkauft-''" by (simp add: startswith_def)
  have b: "\<not> endswith ''panther'' ''-t-shirt''" by (simp add: endswith_def)
  have c: "''panther'' \<noteq> ''ausverkauft''" by simp
  from a b c clean_product_id_decoration [of "''panther''"] show ?thesis by blast
qed

text \<open>
  Claim C9 as stated fails on both halves: a handle that starts with the sale prefix
  keeps one copy of it, a handle that ends with the suffix keeps one copy of it, and
  the bare word \<open>ausverkauft\<close> followed by the suffix reads as a sale prefix.
\<close>

theorem clean_product_id_decoration_counterexample:
  "clean_product_id (''ausverkauft-'' @ ''ausverkauft-x'') \<noteq> clean_product_id ''ausverkauft-x''
   \<and> clean_product_id (''x-t-shirt'' @ ''-t-shirt'') \<noteq> clean_product_id ''x-t-shirt''
   \<and> clean_product_id (''ausverkauft'' @ ''-t-shirt'') \<noteq> clean_product_id ''ausverkauft''"
  by (simp add: clean_product_id_def startswith_def endswith_def strip_prefix_def
      strip_suffix_def)

section \<open>Komood Store: the pagination ends\<close>

lemma find_upt_bounds: "find P [a..<b] = Some k \<Longrightarrow> a \<le> k \<and> k < b"
  by (auto simp: find_Some_iff)

lemma find_never: "find (\<lambda>k. False) xs = None"
  by (induction xs) simp_all

lemma last_page_from_bounds:
  "page \<le> 50 \<Longrightarrow> page \<le> last_page_from api page \<and> last_page_from api page \<le> 50"
  by (auto simp: last_page_from_def split: option.splits dest!: find_upt_bounds)

lemma last_page_from_stop:
  "page \<le> 50 \<Longrightarrow> page_stops (api page) \<Longrightarrow> last_page_from api page = page"
  by (simp add: last_page_from_def upt_conv_Cons)

lemma last_page_from_step:
  "page < 50 \<Longrightarrow> \<not> page_stops (api page)
     \<Longrightarrow> last_page_from api page = last_page_from api (Suc page)"
  by (simp add: last_page_from_def upt_conv_Cons)

lemma last_page_from_50: "last_page_from api 50 = 50"
  by (simp add: last_page_from_def upt_conv_Cons split: option.splits)

text \<open>
  The pages requested from \<open>page\<close> on are the pages up to the last one, by induction
  along the loop.
\<close>

lemma fetch_pages_asked:
  "1 \<le> page \<Longrightarrow> page \<le> 50 \<Longrightarrow>
   snd (fetch_pages api page acc asked) = asked @ [page..<Suc (last_page_from api page)]"
proof (induction api page acc asked rule: fetch_pages.induct)
  case (1 api page all_products asked)
  show ?case
  proof (cases "page_stops (api page)")
    case True
    then have "last_page_from api page = page" using 1(3) by (simp add: last_page_from_stop)
    then show ?thesis using True
      by (subst fetch_pages.simps) (auto simp: page_stops_def split: sum.splits)
  next
    case False
    then obtain products where p: "api page = Inr products" "products \<noteq> []"
      by (auto simp: page_stops_def split: sum.splits)
    show ?thesis
    proof (cases "page + 1 > 50")
      case True
      with 1(3) have "page = 50" by simp
      then show ?thesis using p last_page_from_50 [of api]
        by (subst fetch_pages.simps) simp
    next
      case f: False
      then have lt: "page < 50" by simp
      have ih: "snd (fetch_pages api (page + 1)
                  (all_products @ List.map_filter listed_of products) (asked @ [page]))
        = (asked @ [page]) @ [page + 1..<Suc (last_page_from api (page + 1))]"
        using 1(1) [OF p(1) p(2) f] lt by simp
      have "last_page_from api page = last_page_from api (Suc page)"
        using lt False by (rule last_page_from_step)
      moreover have "Suc page \<le> last_page_from api (Suc page)"
        using last_page_from_bounds [of "Suc page" api] lt by simp
      ultimately have "[page..<Suc (last_page_from api page)]
          = page # [Suc page..<Suc (last_page_from api (Suc page))]"
        by (simp add: upt_conv_Cons)
      then show ?thesis using p f ih
        by (subst fetch_pages.simps) simp
    qed
  qed
qed

text \<open>
  Claim C10. \<open>fetch_all_products\<close> is a total function (its loop is defined with a
  measure that decreases), and for every catalogue the pages it requests are exactly
  the pages 1 up to the first page that raises or is empty, and never more than the
  pages 1 to 50, whatever the pages hold.
\<close>

theorem fetch_all_products_bounded:
  "snd (fetch_all_products api) = [1..<Suc (last_page api)]
   \<and> last_page api \<le> 50
   \<and> length (snd (fetch_all_products api)) \<le> 50"
  using fetch_pages_asked [of 1 api "[]" "[]"] last_page_from_bounds [of 1 api]
  by (simp add: fetch_all_products_def last_page_def)

text \<open>A catalogue whose every page holds one product is left after page 50.\<close>

theorem fetch_all_products_bounded_witness:
  "length (snd (fetch_all_products
      (\<lambda>n. Inr [\<lparr>handle = ''a'', raw_title = ''A'', price = [], body_text = [],
                  image_src = []\<rparr>]))) \<le> 50
   \<and> last_page (\<lambda>n. Inr [\<lparr>handle = ''a'', raw_title = ''A'', price = [], body_text = [],
                  image_src = []\<rparr>]) = 50"
proof -
  have "last_page (\<lambda>n. Inr [\<lparr>handle = ''a'', raw_title = ''A'', price = [], body_text = [],
                  image_src = []\<rparr>]) = 50"
    by (simp add: last_page_def last_page_from_def page_stops_def find_never)
  with fetch_all_products_bounded
    [of "\<lambda>n. Inr [\<lparr>handle = ''a'', raw_title = ''A'', price = [], body_text = [],
                  image_src = []\<rparr>]"]
  show ?thesis by simp
qed

section \<open>Augsburger Panther: the walk down the listing\<close>

lemma item_url_nonempty: "item_url href \<noteq> []"
  by (auto simp: item_url_def BASE_URL_panther_def startswith_def)

lemma parse_loop_spec:
  "length acc < MAX_ARTICLES \<Longrightarrow>
   parse_loop dm known items acc = take MAX_ARTICLES (acc @ entries_above_known dm known items)"
proof (induction items arbitrary: acc)
  case Nil
  then show ?case by (simp add: entries_above_known_def)
next
  case (Cons item rest)
  show ?case
  proof (cases "link item")
    case None
    then show ?thesis using Cons
      by (simp add: entries_above_known_def entry_known_def entry_candidate_def)
  next
    case (Some href)
    show ?thesis
    proof (cases "item_url href \<in> known")
      case True
      then show ?thesis using Some Cons.prems
        by (simp add: entries_above_known_def entry_known_def)
    next
      case False
      show ?thesis
      proof (cases "item_title item = []")
        case True
        then show ?thesis using Some False Cons
          by (simp add: entries_above_known_def entry_known_def entry_candidate_def)
      next
        case t: False
        let ?c = "item_candidate dm item (item_url href)"
        have spec: "entries_above_known dm known (item # rest)
            = ?c # entries_above_known dm known rest"
          using Some False t
          by (simp add: entries_above_known_def entry_known_def entry_candidate_def)
        show ?thesis
        proof (cases "length (acc @ [?c]) \<ge> MAX_ARTICLES")
          case True
          with Cons.prems have "length (acc @ [?c]) = MAX_ARTICLES" by simp
          then have "take MAX_ARTICLES ((acc @ [?c]) @ entries_above_known dm known rest)
              = acc @ [?c]"
            by (metis append_eq_conv_conj)
          then show ?thesis using Some False t True spec item_url_nonempty by simp
        next
          case f: False
          then have "length (acc @ [?c]) < MAX_ARTICLES" by simp
          from Cons.IH [OF this] show ?thesis
            using Some False t f spec item_url_nonempty by simp
        qed
      qed
    qed
  qed
qed

lemma parse_news_items_spec:
  "parse_news_items dm items known = take MAX_ARTICLES (entries_above_known dm known items)"
  using parse_loop_spec [of "[]" dm known items]
  by (simp add: parse_news_items_def MAX_ARTICLES_def)

lemma entries_above_known_fresh:
  "c \<in> set (entries_above_known dm known items) \<Longrightarrow> c_url c \<notin> known \<and> c_title c \<noteq> [] \<and> c_url c \<noteq> []"
proof (induction items)
  case Nil
  then show ?case by (simp add: entries_above_known_def)
next
  case (Cons item rest)
  show ?case
  proof (cases "entry_known known item")
    case True
    with Cons.prems show ?thesis by (simp add: entries_above_known_def)
  next
    case False
    then have step: "entries_above_known dm known (item # rest) =
       (case entry_candidate dm item of None \<Rightarrow> entries_above_known dm known rest
        | Some y \<Rightarrow> y # entries_above_known dm known rest)"
      by (simp add: entries_above_known_def split: option.splits)
    show ?thesis
    proof (cases "entry_candidate dm item")
      case None
      with step Cons show ?thesis by simp
    next
      case (Some y)
      then obtain href where h: "link item = Some href" "item_title item \<noteq> []"
          "y = item_candidate dm item (item_url href)"
        by (auto simp: entry_candidate_def split: option.splits if_splits)
      from False h(1) have "item_url href \<notin> known" by (simp add: entry_known_def)
      then have "c_url y \<notin> known \<and> c_title y \<noteq> [] \<and> c_url y \<noteq> []"
        using h item_url_nonempty [of href]
        by (auto simp: item_candidate_def c_url_def c_title_def split: option.splits)
      with step Some Cons show ?thesis by auto
    qed
  qed
qed

lemma parse_news_items_fresh:
  "c \<in> set (parse_news_items dm items known) \<Longrightarrow> c_url c \<notin> known \<and> c_title c \<noteq> [] \<and> c_url c \<noteq> []"
  using entries_above_known_fresh [of c dm known items]
  by (auto simp: parse_news_items_spec dest: in_set_takeD)

lemma parse_news_items_length: "length (parse_news_items dm items known) \<le> MAX_ARTICLES"
  by (simp add: parse_news_items_spec)

text \<open>
  Claim C5. The candidates are those of the entries above the first entry whose URL is
  known, cut at \<open>MAX_ARTICLES\<close>; an entry yields a candidate when it has a link and a
  title. For a listing \<open>[y, x, z]\<close> in which only the URL of \<open>x\<close> is known and \<open>y\<close> has a
  title, the candidates are exactly the one of \<open>y\<close>.
\<close>

theorem parse_news_items_stops_at_known:
  "parse_news_items dm items known = take MAX_ARTICLES (entries_above_known dm known items)
   \<and> (link y = Some hy \<and> link x = Some hx \<and> item_url hy \<noteq> item_url hx \<and> item_title y \<noteq> []
        \<longrightarrow> parse_news_items dm [y, x, z] {item_url hx} = [item_candidate dm y (item_url hy)])"
  by (simp add: parse_news_items_spec entries_above_known_def entry_known_def
      entry_candidate_def MAX_ARTICLES_def)

theorem parse_news_items_stops_at_known_witness:
  "parse_news_items (\<lambda>s. None)
     [\<lparr>link = Some ''/news/y.html'', spans = [''heute'', ''Y'']\<rparr>,
      \<lparr>link = Some ''/news/x.html'', spans = [''gestern'', ''X'']\<rparr>,
      \<lparr>link = Some ''/news/z.html'', spans = [''gestern'', ''Z'']\<rparr>]
     {''https://www.aev-panther.de/news/x.html''}
   = [([], [], ''Y'', ''https://www.aev-panther.de/news/y.html'')]"
proof -
  have "item_url ''/news/x.html'' = ''https://www.aev-panther.de/news/x.html''"
    and "item_url ''/news/y.html'' = ''https://www.aev-panther.de/news/y.html''"
    by (simp_all add: item_url_def startswith_def BASE_URL_panther_def)
  with parse_news_items_stops_at_known
    [of "\<lambda>s. None" "[]" "{}"
        "\<lparr>link = Some ''/news/y.html'', spans = [''heute'', ''Y'']\<rparr>" "''/news/y.html''"
        "\<lparr>link = Some ''/news/x.html'', spans = [''gestern'', ''X'']\<rparr>" "''/news/x.html''"
        "\<lparr>link = Some ''/news/z.html'', spans = [''gestern'', ''Z'']\<rparr>"]
  show ?thesis by (simp add: item_title_def item_candidate_def)
qed

text \<open>
  Claim C6 on an entry whose link has an empty \<open>href\<close>: the base URL is put in front of
  the \<open>href\<close> before the test \<open>title and url\<close> is made, so the test never sees an empty
  URL and the entry is emitted with the address of the site as its URL.
\<close>

theorem parse_news_items_empty_href:
  "parse_news_items
     (\<lambda>s. if s = ''01.03.2025 | 19:30 Uhr'' then Some (''01.03.2025'', ''19:30'') else None)
     [\<lparr>link = Some [], spans = [''01.03.2025 | 19:30 Uhr'', ''Heimsieg'']\<rparr>] {}
   = [(''2025-03-01'', ''19:30'', ''Heimsieg'', ''https://www.aev-panther.de'')]"
  by (simp add: parse_news_items_def item_url_def startswith_def BASE_URL_panther_def
      item_title_def item_candidate_def item_date_text_def german_date_to_iso_def
      MAX_ARTICLES_def)

section \<open>Augsburger Panther: enrichment\<close>

lemma retry_content_log:
  "retry_content web url k asked = (res, asked') \<Longrightarrow>
   \<exists>j. asked' = asked @ replicate j url \<and> j \<le> k \<and> (0 < k \<longrightarrow> 0 < j) \<and> (res = None \<longrightarrow> j = k)"
proof (induction k arbitrary: asked)
  case 0
  then show ?case by simp
next
  case (Suc k)
  show ?case
  proof (cases "retry_content web url (Suc k) asked = retry_content web url k (asked @ [url])")
    case True
    with Suc.prems have "retry_content web url k (asked @ [url]) = (res, asked')" by simp
    from Suc.IH [OF this] obtain j where j: "asked' = (asked @ [url]) @ replicate j url" "j \<le> k"
       "res = None \<longrightarrow> j = k" by blast
    then have "asked' = asked @ replicate (Suc j) url" by (simp add: replicate_app_Cons_same)
    with j show ?thesis by (intro exI [of _ "Suc j"]) simp
  next
    case False
    then have "asked' = asked @ [url] \<and> res \<noteq> None" using Suc.prems
      by (auto split: sum.splits prod.splits if_splits)
    then show ?thesis by (intro exI [of _ 1]) auto
  qed
qed

lemma retry_content_some:
  "retry_content web url k asked = (Some (d, i), asked') \<Longrightarrow> d \<noteq> []"
  by (induction k arbitrary: asked) (auto split: sum.splits prod.splits if_splits)

lemma fetch_article_log:
  assumes "fetch_article_content_with_retry web url asked = (res, asked')"
  shows "set asked \<subseteq> set asked' \<and> url \<in> set asked'"
proof -
  from assms obtain j where "asked' = asked @ replicate j url" "0 < j"
    using retry_content_log [of web url MAX_RETRIES asked res asked']
    by (auto simp: fetch_article_content_with_retry_def MAX_RETRIES_def)
  then show ?thesis by auto
qed

lemma fetch_article_some:
  "fetch_article_content_with_retry web url asked = (Some (d, i), asked') \<Longrightarrow> d \<noteq> []"
  unfolding fetch_article_content_with_retry_def by (rule retry_content_some)

lemma enrich_articles_induct [case_names Nil Described Failed Fetched]:
  assumes nil: "\<And>asked. P [] asked ([], [], asked)"
    and described: "\<And>a xs asked m u l. a_description a \<noteq> [] \<Longrightarrow>
          enrich_articles web xs asked = (m, u, l) \<Longrightarrow> P xs asked (m, u, l) \<Longrightarrow>
          P (a # xs) asked (a # m, u, l)"
    and failed: "\<And>a xs asked asked1 m u l. a_description a = [] \<Longrightarrow>
          fetch_article_content_with_retry web (a_url a) asked = (None, asked1) \<Longrightarrow>
          enrich_articles web xs asked1 = (m, u, l) \<Longrightarrow> P xs asked1 (m, u, l) \<Longrightarrow>
          P (a # xs) asked (a # m, u, l)"
    and fetched: "\<And>a xs asked asked1 d i m u l. a_description a = [] \<Longrightarrow>
          fetch_article_content_with_retry web (a_url a) asked = (Some (d, i), asked1) \<Longrightarrow>
          d \<noteq> [] \<Longrightarrow>
          enrich_articles web xs asked1 = (m, u, l) \<Longrightarrow> P xs asked1 (m, u, l) \<Longrightarrow>
          P (a # xs) asked
            (a\<lparr>a_description := d, a_image := i\<rparr> # m, a\<lparr>a_description := d, a_image := i\<rparr> # u, l)"
  shows "P xs asked (enrich_articles web xs asked)"
proof (induction xs arbitrary: asked)
  case Nil
  show ?case by (simp add: nil)
next
  case (Cons a xs)
  show ?case
  proof (cases "a_description a = []")
    case False
    obtain m u l where e: "enrich_articles web xs asked = (m, u, l)"
      by (cases "enrich_articles web xs asked")
    with Cons [of asked] have "P xs asked (m, u, l)" by simp
    from described [OF False e this] show ?thesis using False e by simp
  next
    case True
    obtain res asked1 where f: "fetch_article_content_with_retry web (a_url a) asked = (res, asked1)"
      by (cases "fetch_article_content_with_retry web (a_url a) asked")
    obtain m u l where e: "enrich_articles web xs asked1 = (m, u, l)"
      by (cases "enrich_articles web xs asked1")
    with Cons [of asked1] have p: "P xs asked1 (m, u, l)" by simp
    show ?thesis
    proof (cases res)
      case None
      with f have f': "fetch_article_content_with_retry web (a_url a) asked = (None, asked1)" by simp
      from failed [OF True f' e p] show ?thesis using True f' e by simp
    next
      case (Some di)
      obtain d i where di: "di = (d, i)" by (cases di)
      with f Some have f': "fetch_article_content_with_retry web (a_url a) asked = (Some (d, i), asked1)"
        by simp
      then have "d \<noteq> []" by (rule fetch_article_some)
      from fetched [OF True f' this e p] show ?thesis using True f' e by simp
    qed
  qed
qed

lemma enrich_articles_length:
  "length (fst (enrich_articles web xs asked)) = length xs"
  by (induction xs asked rule: enrich_articles_induct) simp_all

lemma enrich_articles_core:
  "map a_core (fst (enrich_articles web xs asked)) = map a_core xs"
  by (induction xs asked rule: enrich_articles_induct) (simp_all add: a_core_def)

lemma enrich_articles_updated:
  "fst (snd (enrich_articles web xs asked))
     = map snd (filter newly_enriched (zip xs (fst (enrich_articles web xs asked))))"
  by (induction xs asked rule: enrich_articles_induct) (simp_all add: newly_enriched_def)

lemma enrich_articles_log_mono:
  "set asked \<subseteq> set (snd (snd (enrich_articles web xs asked)))"
  by (induction xs asked rule: enrich_articles_induct) (auto dest: fetch_article_log)

lemma enrich_articles_asks_pending:
  "\<forall>a \<in> set xs. a_description a = [] \<longrightarrow> a_url a \<in> set (snd (snd (enrich_articles web xs asked)))"
proof (induction xs asked rule: enrich_articles_induct)
  case (Failed a xs asked asked1 m u l)
  from fetch_article_log [OF Failed(2)] have "a_url a \<in> set asked1" by simp
  with enrich_articles_log_mono [of asked1 web xs] Failed(3) have "a_url a \<in> set l" by auto
  with Failed(4) show ?case by simp
next
  case (Fetched a xs asked asked1 d i m u l)
  from fetch_article_log [OF Fetched(2)] have "a_url a \<in> set asked1" by simp
  with enrich_articles_log_mono [of asked1 web xs] Fetched(4) have "a_url a \<in> set l" by auto
  with Fetched(5) show ?case by simp
qed simp_all

lemma enrich_articles_pending_kept:
  "\<forall>a \<in> set (fst (enrich_articles web xs asked)). a_description a = [] \<longrightarrow> a \<in> set xs"
  by (induction xs asked rule: enrich_articles_induct) auto

lemma enrich_articles_keeps_described:
  "\<forall>i < length xs. a_description (xs ! i) \<noteq> [] \<longrightarrow> fst (enrich_articles web xs asked) ! i = xs ! i"
  by (induction xs asked rule: enrich_articles_induct) (auto simp: nth_Cons split: nat.splits)

section \<open>Homey App Store: discovery and enrichment\<close>

lemma subseq_distinct: "subseq xs ys \<Longrightarrow> distinct ys \<Longrightarrow> distinct xs"
proof (induction rule: list_emb.induct)
  case (list_emb_Cons2 x y xs ys)
  then have "x \<notin> set xs" using list_emb_set [of "(=)" xs ys x] by auto
  with list_emb_Cons2 show ?case by simp
qed simp_all

lemma subseq_set: "subseq xs ys \<Longrightarrow> x \<in> set xs \<Longrightarrow> x \<in> set ys"
  using list_emb_set [of "(=)" xs ys x] by blast

lemma new_apps_loop_keeps_ok:
  "length acc < MAX_APPS \<Longrightarrow> new_app_urls_ok ids acc
     \<Longrightarrow> new_app_urls_ok ids (new_apps_loop ids hrefs acc)"
proof (induction hrefs arbitrary: acc)
  case Nil
  then show ?case by simp
next
  case (Cons href rest)
  let ?u = "absolute_href href"
  let ?acc = "if ?u \<notin> set acc then acc @ [?u] else acc"
  show ?case
  proof (cases "href \<noteq> [] \<and> contains ?u ''/app/'' \<and> app_id_of ?u \<notin> ids")
    case False
    then have "new_apps_loop ids (href # rest) acc = new_apps_loop ids rest acc" by auto
    with Cons show ?thesis by simp
  next
    case True
    have inv: "new_app_urls_ok ids ?acc" using Cons.prems True by (auto simp: new_app_urls_ok_def)
    show ?thesis
    proof (cases "length ?acc \<ge> MAX_APPS")
      case t: True
      then have "new_apps_loop ids (href # rest) acc = ?acc" using True by simp
      with inv show ?thesis by simp
    next
      case f: False
      then have "new_apps_loop ids (href # rest) acc = new_apps_loop ids rest ?acc"
        using True by simp
      moreover from f have "length ?acc < MAX_APPS" by simp
      ultimately show ?thesis using Cons.IH [of ?acc] inv by simp
    qed
  qed
qed

lemma parse_new_apps_inv: "new_app_urls_ok ids (parse_new_apps section_links ids)"
proof (cases section_links)
  case None
  then show ?thesis by (simp add: parse_new_apps_def new_app_urls_ok_def)
next
  case (Some hrefs)
  have "new_app_urls_ok ids []" by (simp add: new_app_urls_ok_def)
  moreover have "length ([] :: string list) < MAX_APPS" by (simp add: MAX_APPS_def)
  ultimately show ?thesis using Some new_apps_loop_keeps_ok [of "[]" ids hrefs]
    by (simp add: parse_new_apps_def)
qed

lemma retry_details_some:
  "retry_details web url k asked = (Some d, asked') \<Longrightarrow>
     app_name d \<noteq> [] \<and> app_id d = url_app_id url"
  by (induction k arbitrary: asked)
     (auto simp: details_of_def split: sum.splits option.splits if_splits)

lemma retry_details_failing:
  "\<forall>n. isl (web n url) \<Longrightarrow> fst (retry_details web url k asked) = None"
proof (induction k arbitrary: asked)
  case 0
  then show ?case by simp
next
  case (Suc k)
  from Suc.prems obtain e where "web (length asked) url = Inl e"
    by (metis isl_def)
  with Suc show ?case by simp
qed

lemma fetch_new_apps_records:
  "\<forall>a \<in> set (fst (fetch_new_apps web now urls asked)).
      app_name a \<noteq> [] \<and> app_id a = url_app_id (app_url a) \<and> app_timestamp a = now"
proof (induction urls arbitrary: asked)
  case Nil
  show ?case by simp
next
  case (Cons url rest)
  obtain res asked1 where f: "fetch_app_details_with_retry web url asked = (res, asked1)"
    by (cases "fetch_app_details_with_retry web url asked")
  show ?case
  proof (cases res)
    case None
    with f Cons [of asked1] show ?thesis by simp
  next
    case (Some d)
    with f have "app_name d \<noteq> [] \<and> app_id d = url_app_id url"
      using retry_details_some [of web url MAX_RETRIES asked d asked1]
      by (simp add: fetch_app_details_with_retry_def)
    with f Some Cons [of asked1] show ?thesis by (auto split: prod.splits)
  qed
qed

lemma fetch_new_apps_subseq:
  "subseq (map app_url (fst (fetch_new_apps web now urls asked))) urls"
proof (induction urls arbitrary: asked)
  case Nil
  show ?case by simp
next
  case (Cons url rest)
  obtain res asked1 where f: "fetch_app_details_with_retry web url asked = (res, asked1)"
    by (cases "fetch_app_details_with_retry web url asked")
  show ?case
  proof (cases res)
    case None
    with f Cons [of asked1] show ?thesis by (simp add: list_emb_Cons)
  next
    case (Some d)
    with f Cons [of asked1] show ?thesis by (auto split: prod.splits)
  qed
qed

lemma fetch_new_apps_failing:
  assumes "\<forall>n. isl (web n u)"
  shows "u \<notin> app_url ` set (fst (fetch_new_apps web now urls asked))"
proof (induction urls arbitrary: asked)
  case Nil
  show ?case by simp
next
  case (Cons url rest)
  obtain res asked1 where f: "fetch_app_details_with_retry web url asked = (res, asked1)"
    by (cases "fetch_app_details_with_retry web url asked")
  show ?case
  proof (cases res)
    case None
    with f Cons [of asked1] show ?thesis by simp
  next
    case (Some d)
    have "url \<noteq> u"
    proof
      assume "url = u"
      with assms have "fst (retry_details web url MAX_RETRIES asked) = None"
        using retry_details_failing [of web url] by simp
      with f Some show False by (simp add: fetch_app_details_with_retry_def)
    qed
    with f Some Cons [of asked1] show ?thesis by (auto split: prod.splits)
  qed
qed

section \<open>Komood Store: what the pagination collects\<close>

lemma page_products_stop: "page_stops (api k) \<Longrightarrow> page_products api k = []"
  by (auto simp: page_stops_def page_products_def split: sum.splits)

lemma fetch_pages_products:
  "1 \<le> page \<Longrightarrow> page \<le> 50 \<Longrightarrow>
   fst (fetch_pages api page acc asked)
     = acc @ concat (map (page_products api) [page..<Suc (last_page_from api page)])"
proof (induction api page acc asked rule: fetch_pages.induct)
  case (1 api page all_products asked)
  show ?case
  proof (cases "page_stops (api page)")
    case True
    then have "last_page_from api page = page" using 1(3) by (simp add: last_page_from_stop)
    then show ?thesis using True page_products_stop [of api page]
      by (subst fetch_pages.simps) (auto simp: page_stops_def split: sum.splits)
  next
    case False
    then obtain products where p: "api page = Inr products" "products \<noteq> []"
      by (auto simp: page_stops_def split: sum.splits)
    then have pp: "page_products api page = List.map_filter listed_of products"
      by (simp add: page_products_def)
    show ?thesis
    proof (cases "page + 1 > 50")
      case True
      with 1(3) have "page = 50" by simp
      then show ?thesis using p pp last_page_from_50 [of api]
        by (subst fetch_pages.simps) simp
    next
      case f: False
      then have lt: "page < 50" by simp
      have ih: "fst (fetch_pages api (page + 1)
                  (all_products @ List.map_filter listed_of products) (asked @ [page]))
        = (all_products @ List.map_filter listed_of products)
          @ concat (map (page_products api) [page + 1..<Suc (last_page_from api (page + 1))])"
        using 1(1) [OF p(1) p(2) f] lt by simp
      have "last_page_from api page = last_page_from api (Suc page)"
        using lt False by (rule last_page_from_step)
      moreover have "Suc page \<le> last_page_from api (Suc page)"
        using last_page_from_bounds [of "Suc page" api] lt by simp
      ultimately have "[page..<Suc (last_page_from api page)]
          = page # [Suc page..<Suc (last_page_from api (Suc page))]"
        by (simp add: upt_conv_Cons)
      then show ?thesis using p f ih pp
        by (subst fetch_pages.simps) simp
    qed
  qed
qed

lemma fetch_all_products_pages:
  "fst (fetch_all_products api) = concat (map (page_products api) [1..<Suc (last_page api)])"
  using fetch_pages_products [of 1 api "[]" "[]"]
  by (simp add: fetch_all_products_def last_page_def)

lemma find_append_none:
  "\<forall>x \<in> set xs. \<not> P x \<Longrightarrow> find P (xs @ ys) = find P ys"
  by (induction xs) simp_all

lemma last_page_first_stop:
  assumes "1 \<le> k" "k \<le> 50" "page_stops (api k)"
    "\<forall>j. 1 \<le> j \<and> j < k \<longrightarrow> \<not> page_stops (api j)"
  shows "last_page api = k"
proof -
  have "[1..<k + (51 - k)] = [1..<k] @ [k..<k + (51 - k)]"
    using assms(1) by (rule upt_add_eq_append)
  moreover have "k + (51 - k) = 51" using assms(2) by simp
  ultimately have "[1..<51] = [1..<k] @ [k..<51]" by simp
  moreover have "[k..<51] = k # [Suc k..<51]" using assms(2) by (simp add: upt_conv_Cons)
  ultimately have "[1..<51] = [1..<k] @ k # [Suc k..<51]" by simp
  moreover have "find (\<lambda>j. page_stops (api j)) ([1..<k] @ k # [Suc k..<51]) = Some k"
    using assms(3,4) by (simp add: find_append_none)
  ultimately show ?thesis by (simp add: last_page_def last_page_from_def)
qed

section \<open>The runs\<close>

lemma main_panther_run:
  "main_panther dm existing (Inr items) web = Inr r \<Longrightarrow>
     saved r = fst (enrich_articles web (merged_panther dm existing items) [])
   \<and> feed r = generate_rss_feed_panther (saved r)
   \<and> requests r = snd (snd (enrich_articles web (merged_panther dm existing items) []))
   \<and> summary r = (if fst (snd (enrich_articles web (merged_panther dm existing items) [])) \<noteq> []
        then Some (map summary_line (fst (snd (enrich_articles web (merged_panther dm existing items) []))))
        else None)
   \<and> exit_code r = (if fst (snd (enrich_articles web (merged_panther dm existing items) [])) \<noteq> [] then 0 else 1)"
  by (auto simp: main_panther_def split: prod.splits)

lemma main_homey_run:
  "main_homey now existing (Inr sec) web = Inr r \<Longrightarrow>
     saved r = take MAX_APPS (new_apps_of web now existing sec @ existing)
   \<and> feed r = generate_rss_feed_homey (saved r)
   \<and> summary r = (if new_apps_of web now existing sec \<noteq> []
        then Some (map app_name (new_apps_of web now existing sec)) else None)
   \<and> exit_code r = (if new_apps_of web now existing sec \<noteq> [] then 0 else 1)
   \<and> requests r = snd (fetch_new_apps web now (new_app_urls existing sec) [])"
  by (auto simp: main_homey_def new_apps_of_def split: prod.splits)

lemma main_komood_run:
  "main_komood now existing api = Inr r \<Longrightarrow>
     saved r = new_products_of now existing (fst (fetch_all_products api)) @ existing
   \<and> feed r = generate_rss_feed_komood (saved r)
   \<and> summary r = (if new_products_of now existing (fst (fetch_all_products api)) \<noteq> []
        then Some (map p_title (new_products_of now existing (fst (fetch_all_products api)))) else None)
   \<and> exit_code r = (if new_products_of now existing (fst (fetch_all_products api)) \<noteq> [] then 0 else 1)
   \<and> requests r = snd (fetch_all_products api)"
  by (auto simp: main_komood_def Let_def)

lemma saved_panther_core:
  "main_panther dm existing (Inr items) web = Inr r \<Longrightarrow>
     map a_core (saved r) = take MAX_ARTICLES (map a_core (new_article_dicts dm existing items) @ map a_core existing)"
  using main_panther_run [of dm existing items web r]
  by (simp add: enrich_articles_core merged_panther_def take_map)

lemma saved_panther_described:
  assumes "main_panther dm existing (Inr items) web = Inr r"
    and "i < length (merged_panther dm existing items)"
    and "a_description (merged_panther dm existing items ! i) \<noteq> []"
  shows "saved r ! i = merged_panther dm existing items ! i"
  using main_panther_run [OF assms(1)] enrich_articles_keeps_described assms(2,3) by simp

lemma new_article_dicts_length: "length (new_article_dicts dm existing items) \<le> MAX_ARTICLES"
  by (simp add: new_article_dicts_def parse_news_items_length)

lemma new_app_urls_are_ok: "new_app_urls_ok (set (map app_id existing)) (new_app_urls existing sec)"
  unfolding new_app_urls_def by (rule parse_new_apps_inv)

lemma new_apps_subseq:
  "subseq (map app_url (new_apps_of web now existing sec)) (new_app_urls existing sec)"
  unfolding new_apps_of_def by (rule fetch_new_apps_subseq)

lemma new_apps_length: "length (new_apps_of web now existing sec) \<le> MAX_APPS"
proof -
  have "length (map app_url (new_apps_of web now existing sec)) \<le> length (new_app_urls existing sec)"
    using new_apps_subseq by (rule list_emb_length)
  moreover have "length (new_app_urls existing sec) \<le> MAX_APPS"
    using new_app_urls_are_ok [of existing sec] by (simp add: new_app_urls_ok_def)
  ultimately show ?thesis by simp
qed

text \<open>
  The requests of a run and their answers. Each retry loop asks for its URL until an
  answer enriches or the attempts are used up, so the enriching answers of its requests
  are exactly its result; along the loop over the records the enriching answers of the
  whole log, in order, are exactly the records enriched or stored.
\<close>

lemma answers_append:
  "answers web t (a @ b) = answers web t a @ answers web (t + length a) b"
  by (induction a arbitrary: t) simp_all

lemma answers_fst: "x \<in> set (answers web t asked) \<Longrightarrow> fst x \<in> set asked"
  by (induction asked arbitrary: t) auto

lemma map_filter_append:
  "List.map_filter f (xs @ ys) = List.map_filter f xs @ List.map_filter f ys"
  by (simp add: List.map_filter_def)

lemma map_filter_set:
  "y \<in> set (List.map_filter f xs) \<longleftrightarrow> (\<exists>x \<in> set xs. f x = Some y)"
  by (induction xs) (auto split: option.splits)

lemma fetched_content_fst: "fetched_content x = Some (u, d, img) \<Longrightarrow> fst x = u \<and> d \<noteq> []"
  by (auto simp: fetched_content_def split: sum.splits if_splits)

lemma retry_content_answers:
  "retry_content web url k asked = (res, asked') \<Longrightarrow>
   \<exists>j \<le> k. asked' = asked @ replicate j url \<and> (res = None \<longrightarrow> j = k)
     \<and> List.map_filter fetched_content (answers web (length asked) (replicate j url))
       = (case res of None \<Rightarrow> [] | Some (d, img) \<Rightarrow> [(url, d, img)])"
proof (induction k arbitrary: asked)
  case 0
  then show ?case by simp
next
  case (Suc k)
  show ?case
  proof (cases "fetched_content (url, web (length asked) url)")
    case None
    then have "retry_content web url (Suc k) asked = retry_content web url k (asked @ [url])"
      by (auto simp: fetched_content_def split: sum.splits if_splits)
    with Suc.prems have "retry_content web url k (asked @ [url]) = (res, asked')" by simp
    from Suc.IH [OF this] obtain j where j: "j \<le> k" "asked' = (asked @ [url]) @ replicate j url"
      "res = None \<longrightarrow> j = k"
      "List.map_filter fetched_content (answers web (length (asked @ [url])) (replicate j url))
       = (case res of None \<Rightarrow> [] | Some (d, img) \<Rightarrow> [(url, d, img)])"
      by blast
    from j(2) have "asked' = asked @ replicate (Suc j) url" by simp
    moreover from j(4) None
    have "List.map_filter fetched_content (answers web (length asked) (replicate (Suc j) url))
       = (case res of None \<Rightarrow> [] | Some (d, img) \<Rightarrow> [(url, d, img)])"
      by simp
    ultimately show ?thesis using j(1,3) by (intro exI [of _ "Suc j"]) simp
  next
    case (Some c)
    then obtain d img where w: "web (length asked) url = Inr (d, img)" "d \<noteq> []" "c = (url, d, img)"
      by (auto simp: fetched_content_def split: sum.splits if_splits)
    with Suc.prems have "res = Some (d, img)" "asked' = asked @ [url]" by simp_all
    then show ?thesis using Some w by (intro exI [of _ 1]) simp
  qed
qed

lemma details_of_named: "details_of url pg = Some d \<Longrightarrow> app_name d \<noteq> []"
  by (auto simp: details_of_def split: if_splits)

lemma retry_details_answers:
  "retry_details web url k asked = (res, asked') \<Longrightarrow>
   \<exists>j \<le> k. asked' = asked @ replicate j url \<and> (res = None \<longrightarrow> j = k) \<and> (0 < k \<longrightarrow> 0 < j)
     \<and> List.map_filter named_details (answers web (length asked) (replicate j url))
       = (case res of None \<Rightarrow> [] | Some d \<Rightarrow> [d])"
proof (induction k arbitrary: asked)
  case 0
  then show ?case by simp
next
  case (Suc k)
  show ?case
  proof (cases "named_details (url, web (length asked) url)")
    case None
    then have "retry_details web url (Suc k) asked = retry_details web url k (asked @ [url])"
      by (auto simp: named_details_def split: sum.splits option.splits)
    with Suc.prems have "retry_details web url k (asked @ [url]) = (res, asked')" by simp
    from Suc.IH [OF this] obtain j where j: "j \<le> k" "asked' = (asked @ [url]) @ replicate j url"
      "res = None \<longrightarrow> j = k"
      "List.map_filter named_details (answers web (length (asked @ [url])) (replicate j url))
       = (case res of None \<Rightarrow> [] | Some d \<Rightarrow> [d])"
      by blast
    from j(2) have "asked' = asked @ replicate (Suc j) url" by simp
    moreover from j(4) None
    have "List.map_filter named_details (answers web (length asked) (replicate (Suc j) url))
       = (case res of None \<Rightarrow> [] | Some d \<Rightarrow> [d])"
      by simp
    ultimately show ?thesis using j(1,3) by (intro exI [of _ "Suc j"]) simp
  next
    case (Some d)
    then obtain pg where w: "web (length asked) url = Inr pg" "details_of url pg = Some d"
      by (auto simp: named_details_def split: sum.splits)
    then have "app_name d \<noteq> []" using details_of_named by blast
    with w Suc.prems have "res = Some d" "asked' = asked @ [url]" by simp_all
    then show ?thesis using Some by (intro exI [of _ 1]) simp
  qed
qed


lemma count_list_replicate_same: "count_list (replicate n x) x = n"
  by (induction n) simp_all

lemma stored_app_alt:
  "stored_app now x
   = map_option (\<lambda>details. details\<lparr>app_url := fst x, app_timestamp := now\<rparr>)
       (named_details x)"
  by (auto simp: stored_app_def named_details_def details_of_def split: sum.splits)

lemma stored_app_replicate:
  "List.map_filter (stored_app now) (answers web t (replicate j url))
   = map (\<lambda>d. d\<lparr>app_url := url, app_timestamp := now\<rparr>)
       (List.map_filter named_details (answers web t (replicate j url)))"
  by (induction j arbitrary: t) (auto simp: stored_app_alt split: option.splits)

lemma fetch_app_details_answers:
  assumes "fetch_app_details_with_retry web url asked = (res, asked')"
  shows "\<exists>j. 0 < j \<and> asked' = asked @ replicate j url \<and> (res = None \<longrightarrow> j = MAX_RETRIES)
     \<and> List.map_filter (stored_app now) (answers web (length asked) (replicate j url))
       = (case res of None \<Rightarrow> []
          | Some d \<Rightarrow> [d\<lparr>app_url := url, app_timestamp := now\<rparr>])"
proof -
  from assms obtain j where j: "asked' = asked @ replicate j url" "res = None \<longrightarrow> j = MAX_RETRIES"
      "0 < j"
      "List.map_filter named_details (answers web (length asked) (replicate j url))
       = (case res of None \<Rightarrow> [] | Some d \<Rightarrow> [d])"
    using retry_details_answers [of web url MAX_RETRIES asked res asked']
    by (auto simp: fetch_app_details_with_retry_def MAX_RETRIES_def)
  from j(4) have "List.map_filter (stored_app now) (answers web (length asked) (replicate j url))
       = (case res of None \<Rightarrow> []
          | Some d \<Rightarrow> [d\<lparr>app_url := url, app_timestamp := now\<rparr>])"
    by (simp add: stored_app_replicate split: option.splits)
  with j show ?thesis by blast
qed

lemma fetch_new_apps_answers:
  "fetch_new_apps web now urls asked = (apps, asked') \<Longrightarrow>
   \<exists>ext. asked' = asked @ ext
     \<and> apps = List.map_filter (stored_app now) (answers web (length asked) ext)
     \<and> set ext = set urls
     \<and> (\<forall>u \<in> set urls. u \<in> app_url ` set apps \<or> MAX_RETRIES \<le> count_list ext u)"
proof (induction urls arbitrary: asked apps asked')
  case Nil
  then show ?case by simp
next
  case (Cons url rest)
  obtain res asked1 where f: "fetch_app_details_with_retry web url asked = (res, asked1)"
    by (cases "fetch_app_details_with_retry web url asked")
  obtain apps1 asked2 where r: "fetch_new_apps web now rest asked1 = (apps1, asked2)"
    by (cases "fetch_new_apps web now rest asked1")
  from fetch_app_details_answers [OF f, of now] obtain j where j: "0 < j"
      "asked1 = asked @ replicate j url" "res = None \<longrightarrow> j = MAX_RETRIES"
      "List.map_filter (stored_app now) (answers web (length asked) (replicate j url))
       = (case res of None \<Rightarrow> []
          | Some d \<Rightarrow> [d\<lparr>app_url := url, app_timestamp := now\<rparr>])"
    by blast
  from Cons.IH [OF r] obtain ext1 where e: "asked2 = asked1 @ ext1"
      "apps1 = List.map_filter (stored_app now) (answers web (length asked1) ext1)"
      "set ext1 = set rest"
      "\<forall>u \<in> set rest. u \<in> app_url ` set apps1 \<or> MAX_RETRIES \<le> count_list ext1 u"
    by blast
  let ?ext = "replicate j url @ ext1"
  have res: "apps = (case res of None \<Rightarrow> []
          | Some d \<Rightarrow> [d\<lparr>app_url := url, app_timestamp := now\<rparr>]) @ apps1"
      and a': "asked' = asked2"
    using Cons.prems f r by (auto split: option.splits)
  have 1: "asked' = asked @ ?ext" using a' e(1) j(2) by simp
  have 2: "apps = List.map_filter (stored_app now) (answers web (length asked) ?ext)"
    using res j(4) e(2) j(2) by (simp add: answers_append map_filter_append)
  have 3: "set ?ext = set (url # rest)" using e(3) j(1) by auto
  have 4: "\<forall>u \<in> set (url # rest). u \<in> app_url ` set apps \<or> MAX_RETRIES \<le> count_list ?ext u"
  proof
    fix u assume "u \<in> set (url # rest)"
    then consider "u = url" | "u \<in> set rest" by auto
    then show "u \<in> app_url ` set apps \<or> MAX_RETRIES \<le> count_list ?ext u"
    proof cases
      case 1
      show ?thesis
      proof (cases res)
        case None
        with j(3) have "j = MAX_RETRIES" by simp
        then show ?thesis using 1 by (simp add: count_list_replicate_same)
      next
        case (Some d)
        with res have "d\<lparr>app_url := url, app_timestamp := now\<rparr> \<in> set apps" by simp
        then have "url \<in> app_url ` set apps" by force
        with 1 show ?thesis by simp
      qed
    next
      case 2
      with e(4) have "u \<in> app_url ` set apps1 \<or> MAX_RETRIES \<le> count_list ext1 u" by blast
      then show ?thesis using res by auto
    qed
  qed
  from 1 2 3 4 show ?case by blast
qed

lemma enrich_articles_answers:
  "\<exists>ext. snd (snd (enrich_articles web xs asked)) = asked @ ext
     \<and> map enrichment (fst (snd (enrich_articles web xs asked)))
       = List.map_filter fetched_content (answers web (length asked) ext)
     \<and> (\<forall>i < length xs. a_description (xs ! i) = [] \<longrightarrow>
          (fst (enrich_articles web xs asked) ! i = xs ! i
             \<and> MAX_RETRIES \<le> count_list ext (a_url (xs ! i)))
          \<or> (\<exists>d img. (a_url (xs ! i), d, img)
                  \<in> set (List.map_filter fetched_content (answers web (length asked) ext))
               \<and> fst (enrich_articles web xs asked) ! i
                 = (xs ! i)\<lparr>a_description := d, a_image := img\<rparr>))"
proof (induction xs asked rule: enrich_articles_induct)
  case (Nil asked)
  show ?case by simp
next
  case (Described a xs asked m u l)
  then obtain ext where e: "l = asked @ ext"
      "map enrichment u = List.map_filter fetched_content (answers web (length asked) ext)"
      "\<forall>i < length xs. a_description (xs ! i) = [] \<longrightarrow>
          (m ! i = xs ! i \<and> MAX_RETRIES \<le> count_list ext (a_url (xs ! i)))
          \<or> (\<exists>d img. (a_url (xs ! i), d, img)
                  \<in> set (List.map_filter fetched_content (answers web (length asked) ext))
               \<and> m ! i = (xs ! i)\<lparr>a_description := d, a_image := img\<rparr>)"
    by auto
  have "\<forall>i < length (a # xs). a_description ((a # xs) ! i) = [] \<longrightarrow>
          ((a # m) ! i = (a # xs) ! i \<and> MAX_RETRIES \<le> count_list ext (a_url ((a # xs) ! i)))
          \<or> (\<exists>d img. (a_url ((a # xs) ! i), d, img)
                  \<in> set (List.map_filter fetched_content (answers web (length asked) ext))
               \<and> (a # m) ! i = ((a # xs) ! i)\<lparr>a_description := d, a_image := img\<rparr>)"
  proof (intro allI impI)
    fix i assume i: "i < length (a # xs)" "a_description ((a # xs) ! i) = []"
    with Described(1) obtain i' where "i = Suc i'" by (cases i) auto
    with i e(3) show "((a # m) ! i = (a # xs) ! i \<and> MAX_RETRIES \<le> count_list ext (a_url ((a # xs) ! i)))
          \<or> (\<exists>d img. (a_url ((a # xs) ! i), d, img)
                  \<in> set (List.map_filter fetched_content (answers web (length asked) ext))
               \<and> (a # m) ! i = ((a # xs) ! i)\<lparr>a_description := d, a_image := img\<rparr>)"
      by simp
  qed
  with e(1,2) show ?case by (intro exI [of _ ext]) simp
next
  case (Failed a xs asked asked1 m u l)
  from Failed(2) obtain j where j: "asked1 = asked @ replicate j (a_url a)" "j = MAX_RETRIES"
      "List.map_filter fetched_content (answers web (length asked) (replicate j (a_url a))) = []"
    using retry_content_answers [of web "a_url a" MAX_RETRIES asked None asked1]
    by (auto simp: fetch_article_content_with_retry_def)
  from Failed(4) obtain ext1 where e: "l = asked1 @ ext1"
      "map enrichment u = List.map_filter fetched_content (answers web (length asked1) ext1)"
      "\<forall>i < length xs. a_description (xs ! i) = [] \<longrightarrow>
          (m ! i = xs ! i \<and> MAX_RETRIES \<le> count_list ext1 (a_url (xs ! i)))
          \<or> (\<exists>d img. (a_url (xs ! i), d, img)
                  \<in> set (List.map_filter fetched_content (answers web (length asked1) ext1))
               \<and> m ! i = (xs ! i)\<lparr>a_description := d, a_image := img\<rparr>)"
    by auto
  let ?ext = "replicate j (a_url a) @ ext1"
  have mf: "List.map_filter fetched_content (answers web (length asked) ?ext)
      = List.map_filter fetched_content (answers web (length asked1) ext1)"
    using j(1,3) by (simp add: answers_append map_filter_append)
  have "\<forall>i < length (a # xs). a_description ((a # xs) ! i) = [] \<longrightarrow>
          ((a # m) ! i = (a # xs) ! i \<and> MAX_RETRIES \<le> count_list ?ext (a_url ((a # xs) ! i)))
          \<or> (\<exists>d img. (a_url ((a # xs) ! i), d, img)
                  \<in> set (List.map_filter fetched_content (answers web (length asked) ?ext))
               \<and> (a # m) ! i = ((a # xs) ! i)\<lparr>a_description := d, a_image := img\<rparr>)"
  proof (intro allI impI)
    fix i assume i: "i < length (a # xs)" "a_description ((a # xs) ! i) = []"
    show "((a # m) ! i = (a # xs) ! i \<and> MAX_RETRIES \<le> count_list ?ext (a_url ((a # xs) ! i)))
          \<or> (\<exists>d img. (a_url ((a # xs) ! i), d, img)
                  \<in> set (List.map_filter fetched_content (answers web (length asked) ?ext))
               \<and> (a # m) ! i = ((a # xs) ! i)\<lparr>a_description := d, a_image := img\<rparr>)"
    proof (cases i)
      case 0
      then show ?thesis using j(2) by (simp add: count_list_replicate_same)
    next
      case (Suc i')
      with i e(3) have "(m ! i' = xs ! i' \<and> MAX_RETRIES \<le> count_list ext1 (a_url (xs ! i')))
          \<or> (\<exists>d img. (a_url (xs ! i'), d, img)
                  \<in> set (List.map_filter fetched_content (answers web (length asked1) ext1))
               \<and> m ! i' = (xs ! i')\<lparr>a_description := d, a_image := img\<rparr>)"
        by simp
      then show ?thesis unfolding mf using Suc by auto
    qed
  qed
  moreover have "l = asked @ ?ext" using e(1) j(1) by simp
  moreover have "map enrichment u = List.map_filter fetched_content (answers web (length asked) ?ext)"
    using e(2) mf by simp
  ultimately show ?case by (intro exI [of _ ?ext]) simp
next
  case (Fetched a xs asked asked1 d img m u l)
  let ?a = "a\<lparr>a_description := d, a_image := img\<rparr>"
  from Fetched(2) obtain j where j: "asked1 = asked @ replicate j (a_url a)"
      "List.map_filter fetched_content (answers web (length asked) (replicate j (a_url a)))
        = [(a_url a, d, img)]"
    using retry_content_answers [of web "a_url a" MAX_RETRIES asked "Some (d, img)" asked1]
    by (auto simp: fetch_article_content_with_retry_def)
  from Fetched(5) obtain ext1 where e: "l = asked1 @ ext1"
      "map enrichment u = List.map_filter fetched_content (answers web (length asked1) ext1)"
      "\<forall>i < length xs. a_description (xs ! i) = [] \<longrightarrow>
          (m ! i = xs ! i \<and> MAX_RETRIES \<le> count_list ext1 (a_url (xs ! i)))
          \<or> (\<exists>d img. (a_url (xs ! i), d, img)
                  \<in> set (List.map_filter fetched_content (answers web (length asked1) ext1))
               \<and> m ! i = (xs ! i)\<lparr>a_description := d, a_image := img\<rparr>)"
    by auto
  let ?ext = "replicate j (a_url a) @ ext1"
  have mf: "List.map_filter fetched_content (answers web (length asked) ?ext)
      = (a_url a, d, img) # List.map_filter fetched_content (answers web (length asked1) ext1)"
    using j by (simp add: answers_append map_filter_append)
  have "\<forall>i < length (a # xs). a_description ((a # xs) ! i) = [] \<longrightarrow>
          ((?a # m) ! i = (a # xs) ! i \<and> MAX_RETRIES \<le> count_list ?ext (a_url ((a # xs) ! i)))
          \<or> (\<exists>d img. (a_url ((a # xs) ! i), d, img)
                  \<in> set (List.map_filter fetched_content (answers web (length asked) ?ext))
               \<and> (?a # m) ! i = ((a # xs) ! i)\<lparr>a_description := d, a_image := img\<rparr>)"
  proof (intro allI impI)
    fix i assume i: "i < length (a # xs)" "a_description ((a # xs) ! i) = []"
    show "((?a # m) ! i = (a # xs) ! i \<and> MAX_RETRIES \<le> count_list ?ext (a_url ((a # xs) ! i)))
          \<or> (\<exists>d img. (a_url ((a # xs) ! i), d, img)
                  \<in> set (List.map_filter fetched_content (answers web (length asked) ?ext))
               \<and> (?a # m) ! i = ((a # xs) ! i)\<lparr>a_description := d, a_image := img\<rparr>)"
    proof (cases i)
      case 0
      then show ?thesis unfolding mf by auto
    next
      case (Suc i')
      with i e(3) have "(m ! i' = xs ! i' \<and> MAX_RETRIES \<le> count_list ext1 (a_url (xs ! i')))
          \<or> (\<exists>d img. (a_url (xs ! i'), d, img)
                  \<in> set (List.map_filter fetched_content (answers web (length asked1) ext1))
               \<and> m ! i' = (xs ! i')\<lparr>a_description := d, a_image := img\<rparr>)"
        by simp
      then show ?thesis unfolding mf using Suc by auto
    qed
  qed
  moreover have "l = asked @ ?ext" using e(1) j(1) by simp
  moreover have "map enrichment (?a # u)
      = List.map_filter fetched_content (answers web (length asked) ?ext)"
    using e(2) mf by (simp add: enrichment_def)
  ultimately show ?case by (intro exI [of _ ?ext]) simp
qed

lemma split_on_no_break: "c \<notin> set s \<Longrightarrow> split_on [c] s = [s]"
  by (induction s) (auto simp: startswith_def)

lemma printed_lines_no_break:
  "\<forall>s \<in> set strs. CHR 0x0A \<notin> set s \<Longrightarrow> printed_lines strs = strs"
  by (induction strs) (simp_all add: printed_lines_def split_on_no_break)

lemma subseq_filter_distinct:
  "subseq xs ys \<Longrightarrow> distinct ys \<Longrightarrow> xs = filter (\<lambda>y. y \<in> set xs) ys"
proof (induction rule: list_emb.induct)
  case (list_emb_Nil ys)
  show ?case by simp
next
  case (list_emb_Cons xs ys y)
  then have "y \<notin> set xs" using subseq_set [of xs ys y] by auto
  with list_emb_Cons show ?case by simp
next
  case (list_emb_Cons2 x y xs ys)
  then have "x \<notin> set xs" using subseq_set [of xs ys x] by auto
  then have "filter (\<lambda>z. z \<in> set (x # xs)) ys = filter (\<lambda>z. z \<in> set xs) ys"
    using list_emb_Cons2 by (intro filter_cong) auto
  with list_emb_Cons2 show ?case by simp
qed

lemma stored_app_url: "stored_app now x = Some a \<Longrightarrow> app_url a = fst x"
  by (auto simp: stored_app_alt)

lemma main_homey_answers:
  assumes run: "main_homey now existing (Inr sec) web = Inr r"
  shows "new_apps_of web now existing sec
      = List.map_filter (stored_app now) (answers web 0 (requests r))"
    and "set (requests r) = set (new_app_urls existing sec)"
    and "\<forall>u \<in> set (new_app_urls existing sec).
          u \<in> app_url ` set (new_apps_of web now existing sec)
          \<or> MAX_RETRIES \<le> count_list (requests r) u"
proof -
  obtain apps l where f: "fetch_new_apps web now (new_app_urls existing sec) [] = (apps, l)"
    by (cases "fetch_new_apps web now (new_app_urls existing sec) []")
  then have a: "new_apps_of web now existing sec = apps" and l: "requests r = l"
    using main_homey_run [OF run] by (simp_all add: new_apps_of_def)
  from fetch_new_apps_answers [OF f] a l
  show "new_apps_of web now existing sec
      = List.map_filter (stored_app now) (answers web 0 (requests r))"
    and "set (requests r) = set (new_app_urls existing sec)"
    and "\<forall>u \<in> set (new_app_urls existing sec).
          u \<in> app_url ` set (new_apps_of web now existing sec)
          \<or> MAX_RETRIES \<le> count_list (requests r) u"
    by auto
qed

lemma new_apps_url_iff:
  assumes run: "main_homey now existing (Inr sec) web = Inr r"
  shows "u \<in> set (map app_url (new_apps_of web now existing sec))
     \<longleftrightarrow> (\<exists>x \<in> set (answers web 0 (requests r)). fst x = u \<and> stored_app now x \<noteq> None)"
proof
  assume "u \<in> set (map app_url (new_apps_of web now existing sec))"
  then obtain a where a: "a \<in> set (new_apps_of web now existing sec)" "app_url a = u" by auto
  from a(1) obtain x where x: "x \<in> set (answers web 0 (requests r))" "stored_app now x = Some a"
    unfolding main_homey_answers(1) [OF run] map_filter_set by blast
  with a(2) stored_app_url [OF x(2)] show
    "\<exists>x \<in> set (answers web 0 (requests r)). fst x = u \<and> stored_app now x \<noteq> None" by auto
next
  assume "\<exists>x \<in> set (answers web 0 (requests r)). fst x = u \<and> stored_app now x \<noteq> None"
  then obtain x a where x: "x \<in> set (answers web 0 (requests r))" "fst x = u"
      "stored_app now x = Some a" by auto
  then have "a \<in> set (new_apps_of web now existing sec)"
    unfolding main_homey_answers(1) [OF run] map_filter_set by blast
  with stored_app_url [OF x(3)] x(2) show "u \<in> set (map app_url (new_apps_of web now existing sec))"
    by force
qed

lemma new_apps_urls_filter:
  assumes run: "main_homey now existing (Inr sec) web = Inr r"
  shows "map app_url (new_apps_of web now existing sec)
     = filter (\<lambda>u. \<exists>x \<in> set (answers web 0 (requests r)). fst x = u \<and> stored_app now x \<noteq> None)
         (new_app_urls existing sec)"
proof -
  have d: "distinct (new_app_urls existing sec)"
    using new_app_urls_are_ok [of existing sec] by (simp add: new_app_urls_ok_def)
  have "map app_url (new_apps_of web now existing sec)
     = filter (\<lambda>u. u \<in> set (map app_url (new_apps_of web now existing sec)))
         (new_app_urls existing sec)"
    using new_apps_subseq d by (rule subseq_filter_distinct)
  also have "\<dots> = filter
      (\<lambda>u. \<exists>x \<in> set (answers web 0 (requests r)). fst x = u \<and> stored_app now x \<noteq> None)
         (new_app_urls existing sec)"
    by (intro filter_cong refl) (rule new_apps_url_iff [OF run])
  finally show ?thesis .
qed

lemma main_panther_answers:
  assumes run: "main_panther dm existing (Inr items) web = Inr r"
    and i: "i < length (merged_panther dm existing items)"
      "a_description (merged_panther dm existing items ! i) = []"
    and fails: "\<forall>x \<in> set (answers web 0 (requests r)).
        fst x = a_url (merged_panther dm existing items ! i) \<longrightarrow> fetched_content x = None"
  shows "saved r ! i = merged_panther dm existing items ! i
     \<and> saved r ! i \<notin> set (feed r)
     \<and> MAX_RETRIES \<le> count_list (requests r) (a_url (merged_panther dm existing items ! i))"
proof -
  let ?m = "merged_panther dm existing items"
  from main_panther_run [OF run] have s: "saved r = fst (enrich_articles web ?m [])"
    and q: "requests r = snd (snd (enrich_articles web ?m []))"
    and f: "feed r = generate_rss_feed_panther (saved r)" by simp_all
  from enrich_articles_answers [of web ?m "[]"] s q obtain ext where e: "requests r = ext"
    "\<forall>i < length ?m. a_description (?m ! i) = [] \<longrightarrow>
          (saved r ! i = ?m ! i \<and> MAX_RETRIES \<le> count_list ext (a_url (?m ! i)))
          \<or> (\<exists>d img. (a_url (?m ! i), d, img)
                  \<in> set (List.map_filter fetched_content (answers web 0 ext))
               \<and> saved r ! i = (?m ! i)\<lparr>a_description := d, a_image := img\<rparr>)"
    by auto
  have no: "(a_url (?m ! i), d, img)
      \<notin> set (List.map_filter fetched_content (answers web 0 ext))" for d img
  proof
    assume "(a_url (?m ! i), d, img) \<in> set (List.map_filter fetched_content (answers web 0 ext))"
    then obtain x where x: "x \<in> set (answers web 0 ext)"
        "fetched_content x = Some (a_url (?m ! i), d, img)"
      unfolding map_filter_set by blast
    from fetched_content_fst [OF x(2)] have "fst x = a_url (?m ! i)" by simp
    with fails x(1) e(1) have "fetched_content x = None" by simp
    with x(2) show False by simp
  qed
  from e(2) i no have u: "saved r ! i = ?m ! i"
    and c: "MAX_RETRIES \<le> count_list ext (a_url (?m ! i))" by blast+
  from u i(2) f have "saved r ! i \<notin> set (feed r)" by (simp add: generate_rss_feed_panther_def)
  with u c e(1) show ?thesis by simp
qed

lemma merged_panther_keeps:
  assumes "j < length existing" "length (new_article_dicts dm existing items) + j < MAX_ARTICLES"
  shows "merged_panther dm existing items ! (length (new_article_dicts dm existing items) + j)
     = existing ! j"
  using assms by (simp add: merged_panther_def nth_append)

text \<open>The example inputs, run.\<close>

lemma run_panther_down:
  "main_panther ex_date_match [ex_old] (Inr [ex_item]) web_down
   = Inr \<lparr>saved = [ex_pending, ex_old], feed = [ex_old], summary = None, exit_code = 1,
          requests = replicate 3 (a_url ex_pending)\<rparr>"
  by code_simp

lemma run_panther_up:
  "main_panther ex_date_match [ex_pending, ex_old] (Inr [ex_item]) web_up
   = Inr \<lparr>saved = [ex_enriched, ex_old], feed = [ex_enriched, ex_old],
          summary = Some [''2025-03-01 Neu''], exit_code = 0, requests = [a_url ex_pending]\<rparr>"
  by code_simp

lemma run_panther_full:
  "main_panther ex_date_match (replicate 50 ex_old) (Inr [ex_item]) web_down
   = Inr \<lparr>saved = ex_pending # replicate 49 ex_old, feed = replicate 49 ex_old,
          summary = None, exit_code = 1, requests = replicate 3 (a_url ex_pending)\<rparr>"
  by code_simp

lemma run_komood:
  "main_komood ''2025-03-01T10:00:00+01:00'' [ex_old_product] ex_api
   = Inr \<lparr>saved = [ex_product, ex_old_product], feed = [ex_product, ex_old_product],
          summary = Some [''Panther''], exit_code = 0, requests = [1, 2]\<rparr>"
  by code_simp

lemma run_homey_up:
  "main_homey ''2025-03-01T10:00:00+01:00'' [ex_old_app]
     (Inr (Some [''/en-us/app/alt/'', ''/en-us/app/neu/''])) app_web_up
   = Inr \<lparr>saved = [ex_app, ex_old_app], feed = [ex_app, ex_old_app],
          summary = Some [''Neu''], exit_code = 0, requests = [app_url ex_app]\<rparr>"
  by code_simp

lemma run_homey_down:
  "main_homey ''2025-03-01T10:00:00+01:00'' [ex_old_app]
     (Inr (Some [''/en-us/app/alt/'', ''/en-us/app/neu/''])) app_web_down
   = Inr \<lparr>saved = [ex_old_app], feed = [ex_old_app], summary = None, exit_code = 1,
          requests = replicate 3 (app_url ex_app)\<rparr>"
  by code_simp

lemma run_homey_full:
  "main_homey ''2025-03-01T10:00:00+01:00'' (replicate 50 ex_old_app)
     (Inr (Some [''/en-us/app/alt/'', ''/en-us/app/neu/''])) app_web_up
   = Inr \<lparr>saved = ex_app # replicate 49 ex_old_app, feed = ex_app # replicate 49 ex_old_app,
          summary = Some [''Neu''], exit_code = 0, requests = [app_url ex_app]\<rparr>"
  by code_simp

section \<open>Merge and trim\<close>

text \<open>
  Claim C2, as the code has it. In every run the list handed to the save function is
  the new items, in the order of their discovery, followed by the stored list in its
  order, before the trim. For Augsburger Panther the new items are all candidates; the
  list is compared on the fields that enrichment does not write, and a record that had
  a description is saved as it was. For Komood Store the new items are the listed
  products whose identifier is not stored. For Homey the new items are not all
  candidates: they are the records of the enriching answers of the run, the requests
  of the run are requests for the candidates, and their URLs are the candidates that
  got an enriching answer, in the order of the candidates.
\<close>

theorem merged_new_then_existing:
  "(main_panther dm existing (Inr items) web = Inr r \<longrightarrow>
      map a_core (saved r)
        = take MAX_ARTICLES
            (map a_core (new_article_dicts dm existing items) @ map a_core existing)
      \<and> (\<forall>i < length (merged_panther dm existing items).
           a_description (merged_panther dm existing items ! i) \<noteq> [] \<longrightarrow>
           saved r ! i = merged_panther dm existing items ! i))
   \<and> (main_komood now pexisting api = Inr kr \<longrightarrow>
      saved kr
        = map (with_timestamp now)
            (filter (\<lambda>p. lp_id p \<notin> set (map p_id pexisting)) (fst (fetch_all_products api)))
          @ pexisting)
   \<and> (main_homey now hexisting (Inr sec) hweb = Inr hr \<longrightarrow>
      saved hr = take MAX_APPS (new_apps_of hweb now hexisting sec @ hexisting)
      \<and> subseq (map app_url (new_apps_of hweb now hexisting sec)) (new_app_urls hexisting sec)
      \<and> new_apps_of hweb now hexisting sec
        = List.map_filter (stored_app now) (answers hweb 0 (requests hr))
      \<and> set (requests hr) = set (new_app_urls hexisting sec)
      \<and> map app_url (new_apps_of hweb now hexisting sec)
        = filter (\<lambda>u. \<exists>x \<in> set (answers hweb 0 (requests hr)).
                        fst x = u \<and> stored_app now x \<noteq> None)
            (new_app_urls hexisting sec))"
proof (intro conjI impI)
  assume run: "main_panther dm existing (Inr items) web = Inr r"
  show "map a_core (saved r)
        = take MAX_ARTICLES
            (map a_core (new_article_dicts dm existing items) @ map a_core existing)"
    by (rule saved_panther_core [OF run])
  show "\<forall>i < length (merged_panther dm existing items).
           a_description (merged_panther dm existing items ! i) \<noteq> [] \<longrightarrow>
           saved r ! i = merged_panther dm existing items ! i"
    using saved_panther_described [OF run] by blast
next
  assume run: "main_komood now pexisting api = Inr kr"
  show "saved kr
        = map (with_timestamp now)
            (filter (\<lambda>p. lp_id p \<notin> set (map p_id pexisting)) (fst (fetch_all_products api)))
          @ pexisting"
    using main_komood_run [OF run] by (simp add: new_products_of_def)
next
  assume run: "main_homey now hexisting (Inr sec) hweb = Inr hr"
  show "saved hr = take MAX_APPS (new_apps_of hweb now hexisting sec @ hexisting)"
    using main_homey_run [OF run] by simp
  show "subseq (map app_url (new_apps_of hweb now hexisting sec)) (new_app_urls hexisting sec)"
    by (rule new_apps_subseq)
  show "new_apps_of hweb now hexisting sec
        = List.map_filter (stored_app now) (answers hweb 0 (requests hr))"
    by (rule main_homey_answers(1) [OF run])
  show "set (requests hr) = set (new_app_urls hexisting sec)"
    by (rule main_homey_answers(2) [OF run])
  show "map app_url (new_apps_of hweb now hexisting sec)
        = filter (\<lambda>u. \<exists>x \<in> set (answers hweb 0 (requests hr)).
                        fst x = u \<and> stored_app now x \<noteq> None)
            (new_app_urls hexisting sec)"
    by (rule new_apps_urls_filter [OF run])
qed

theorem merged_new_then_existing_witness:
  "main_panther ex_date_match [ex_old] (Inr [ex_item]) web_down
     = Inr \<lparr>saved = [ex_pending, ex_old], feed = [ex_old], summary = None, exit_code = 1,
          requests = replicate 3 (a_url ex_pending)\<rparr>
   \<and> main_komood ''2025-03-01T10:00:00+01:00'' [ex_old_product] ex_api
     = Inr \<lparr>saved = [ex_product, ex_old_product], feed = [ex_product, ex_old_product],
          summary = Some [''Panther''], exit_code = 0, requests = [1, 2]\<rparr>
   \<and> main_homey ''2025-03-01T10:00:00+01:00'' [ex_old_app]
       (Inr (Some [''/en-us/app/alt/'', ''/en-us/app/neu/''])) app_web_up
     = Inr \<lparr>saved = [ex_app, ex_old_app], feed = [ex_app, ex_old_app],
          summary = Some [''Neu''], exit_code = 0, requests = [app_url ex_app]\<rparr>
   \<and> map a_core [ex_pending, ex_old]
     = take MAX_ARTICLES
         (map a_core (new_article_dicts ex_date_match [ex_old] [ex_item]) @ map a_core [ex_old])
   \<and> [ex_product, ex_old_product]
     = map (with_timestamp ''2025-03-01T10:00:00+01:00'')
         (filter (\<lambda>p. lp_id p \<notin> set (map p_id [ex_old_product]))
            (fst (fetch_all_products ex_api)))
       @ [ex_old_product]
   \<and> [ex_app, ex_old_app]
     = take MAX_APPS
         (new_apps_of app_web_up ''2025-03-01T10:00:00+01:00'' [ex_old_app]
            (Some [''/en-us/app/alt/'', ''/en-us/app/neu/'']) @ [ex_old_app])
   \<and> new_apps_of app_web_up ''2025-03-01T10:00:00+01:00'' [ex_old_app]
         (Some [''/en-us/app/alt/'', ''/en-us/app/neu/''])
     = List.map_filter (stored_app ''2025-03-01T10:00:00+01:00'')
         (answers app_web_up 0 [app_url ex_app])"
proof -
  let ?r = "\<lparr>saved = [ex_pending, ex_old], feed = [ex_old], summary = None, exit_code = 1,
          requests = replicate 3 (a_url ex_pending)\<rparr>"
  let ?kr = "\<lparr>saved = [ex_product, ex_old_product], feed = [ex_product, ex_old_product],
          summary = Some [''Panther''], exit_code = 0, requests = [1, 2 :: nat]\<rparr>"
  let ?hr = "\<lparr>saved = [ex_app, ex_old_app], feed = [ex_app, ex_old_app],
          summary = Some [''Neu''], exit_code = 0, requests = [app_url ex_app]\<rparr>"
  note t = merged_new_then_existing
    [where dm = ex_date_match and existing = "[ex_old]" and items = "[ex_item]"
       and web = web_down and r = ?r
       and now = "''2025-03-01T10:00:00+01:00''" and pexisting = "[ex_old_product]"
       and api = ex_api and kr = ?kr
       and hexisting = "[ex_old_app]" and sec = "Some [''/en-us/app/alt/'', ''/en-us/app/neu/'']"
       and hweb = app_web_up and hr = ?hr]
  note tp = t [THEN conjunct1, THEN mp, OF run_panther_down, THEN conjunct1]
  note tk = t [THEN conjunct2, THEN conjunct1, THEN mp, OF run_komood]
  note th = t [THEN conjunct2, THEN conjunct2, THEN mp, OF run_homey_up]
  from tp have a: "map a_core [ex_pending, ex_old]
     = take MAX_ARTICLES
         (map a_core (new_article_dicts ex_date_match [ex_old] [ex_item]) @ map a_core [ex_old])"
    by (simp only: run.select_convs)
  from tk have b: "[ex_product, ex_old_product]
     = map (with_timestamp ''2025-03-01T10:00:00+01:00'')
         (filter (\<lambda>p. lp_id p \<notin> set (map p_id [ex_old_product]))
            (fst (fetch_all_products ex_api)))
       @ [ex_old_product]"
    by (simp only: run.select_convs)
  from th [THEN conjunct1] have c: "[ex_app, ex_old_app]
     = take MAX_APPS
         (new_apps_of app_web_up ''2025-03-01T10:00:00+01:00'' [ex_old_app]
            (Some [''/en-us/app/alt/'', ''/en-us/app/neu/'']) @ [ex_old_app])"
    by (simp only: run.select_convs)
  from th [THEN conjunct2, THEN conjunct2, THEN conjunct1]
  have d: "new_apps_of app_web_up ''2025-03-01T10:00:00+01:00'' [ex_old_app]
         (Some [''/en-us/app/alt/'', ''/en-us/app/neu/''])
     = List.map_filter (stored_app ''2025-03-01T10:00:00+01:00'')
         (answers app_web_up 0 [app_url ex_app])"
    by (simp only: run.select_convs)
  from run_panther_down run_komood run_homey_up a b c d show ?thesis by (intro conjI)
qed

text \<open>
  Claim C2 as stated fails for Homey: the listing yields one candidate, every answer
  for it is a page without a name, and the saved list is the stored list alone.
\<close>

theorem merged_new_then_existing_counterexample:
  "new_app_urls
     [\<lparr>app_id = ''alt'', app_name = ''Alt'', app_description = [],
       app_url = ''https://homey.app/en-us/app/alt/'', app_image = [], app_developer = [],
       app_timestamp = ''2025-01-01T10:00:00+01:00''\<rparr>]
     (Some [''/en-us/app/neu/''])
   = [''https://homey.app/en-us/app/neu/'']
   \<and> main_homey ''2025-03-01T10:00:00+01:00''
       [\<lparr>app_id = ''alt'', app_name = ''Alt'', app_description = [],
         app_url = ''https://homey.app/en-us/app/alt/'', app_image = [], app_developer = [],
         app_timestamp = ''2025-01-01T10:00:00+01:00''\<rparr>]
       (Inr (Some [''/en-us/app/neu/'']))
       (\<lambda>n url. Inr \<lparr>pg_name = [], pg_description = ''Eine App'', pg_image = [],
                      pg_developer = []\<rparr>)
     = Inr \<lparr>saved = [\<lparr>app_id = ''alt'', app_name = ''Alt'', app_description = [],
                      app_url = ''https://homey.app/en-us/app/alt/'', app_image = [],
                      app_developer = [], app_timestamp = ''2025-01-01T10:00:00+01:00''\<rparr>],
            feed = [\<lparr>app_id = ''alt'', app_name = ''Alt'', app_description = [],
                      app_url = ''https://homey.app/en-us/app/alt/'', app_image = [],
                      app_developer = [], app_timestamp = ''2025-01-01T10:00:00+01:00''\<rparr>],
            summary = None, exit_code = 1,
            requests = [''https://homey.app/en-us/app/neu/'', ''https://homey.app/en-us/app/neu/'',
                        ''https://homey.app/en-us/app/neu/'']\<rparr>"
  by code_simp

text \<open>
  Claim C3. For the two capped sources the saved list has at most 50 records, the new
  items are at most 50 and are all saved, and what follows them is a prefix of the
  stored list: the records that are dropped are the last ones of the stored list.
\<close>

theorem saved_within_cap:
  "(main_panther dm existing (Inr items) web = Inr r \<longrightarrow>
      length (saved r) \<le> MAX_ARTICLES
      \<and> length (new_article_dicts dm existing items) \<le> MAX_ARTICLES
      \<and> map a_core (saved r)
        = map a_core (new_article_dicts dm existing items)
          @ map a_core
              (take (MAX_ARTICLES - length (new_article_dicts dm existing items)) existing))
   \<and> (main_homey now hexisting (Inr sec) hweb = Inr hr \<longrightarrow>
      length (saved hr) \<le> MAX_APPS
      \<and> length (new_apps_of hweb now hexisting sec) \<le> MAX_APPS
      \<and> saved hr = new_apps_of hweb now hexisting sec
          @ take (MAX_APPS - length (new_apps_of hweb now hexisting sec)) hexisting)"
proof (intro conjI impI)
  assume run: "main_panther dm existing (Inr items) web = Inr r"
  from main_panther_run [OF run] show "length (saved r) \<le> MAX_ARTICLES"
    by (simp add: enrich_articles_length merged_panther_def)
  show "length (new_article_dicts dm existing items) \<le> MAX_ARTICLES"
    by (rule new_article_dicts_length)
  then show "map a_core (saved r)
        = map a_core (new_article_dicts dm existing items)
          @ map a_core
              (take (MAX_ARTICLES - length (new_article_dicts dm existing items)) existing)"
    using saved_panther_core [OF run] by (simp add: take_map)
next
  assume run: "main_homey now hexisting (Inr sec) hweb = Inr hr"
  from main_homey_run [OF run] show "length (saved hr) \<le> MAX_APPS" by simp
  show "length (new_apps_of hweb now hexisting sec) \<le> MAX_APPS" by (rule new_apps_length)
  then show "saved hr = new_apps_of hweb now hexisting sec
          @ take (MAX_APPS - length (new_apps_of hweb now hexisting sec)) hexisting"
    using main_homey_run [OF run] by simp
qed

text \<open>Fifty stored records and one new item: the last stored record is dropped.\<close>

theorem saved_within_cap_witness:
  "main_panther ex_date_match (replicate 50 ex_old) (Inr [ex_item]) web_down
     = Inr \<lparr>saved = ex_pending # replicate 49 ex_old, feed = replicate 49 ex_old,
          summary = None, exit_code = 1, requests = replicate 3 (a_url ex_pending)\<rparr>
   \<and> main_homey ''2025-03-01T10:00:00+01:00'' (replicate 50 ex_old_app)
       (Inr (Some [''/en-us/app/alt/'', ''/en-us/app/neu/''])) app_web_up
     = Inr \<lparr>saved = ex_app # replicate 49 ex_old_app,
          feed = ex_app # replicate 49 ex_old_app,
          summary = Some [''Neu''], exit_code = 0, requests = [app_url ex_app]\<rparr>
   \<and> length (ex_pending # replicate 49 ex_old) \<le> MAX_ARTICLES
   \<and> length (ex_app # replicate 49 ex_old_app) \<le> MAX_APPS"
proof -
  let ?r = "\<lparr>saved = ex_pending # replicate 49 ex_old, feed = replicate 49 ex_old,
          summary = None, exit_code = 1, requests = replicate 3 (a_url ex_pending)\<rparr>"
  let ?hr = "\<lparr>saved = ex_app # replicate 49 ex_old_app,
          feed = ex_app # replicate 49 ex_old_app,
          summary = Some [''Neu''], exit_code = 0, requests = [app_url ex_app]\<rparr>"
  note cap = saved_within_cap
    [of ex_date_match "replicate 50 ex_old" "[ex_item]" web_down ?r
        "''2025-03-01T10:00:00+01:00''" "replicate 50 ex_old_app"
        "Some [''/en-us/app/alt/'', ''/en-us/app/neu/'']" app_web_up ?hr]
  from cap run_panther_full have "length (saved ?r) \<le> MAX_ARTICLES" by blast
  then have a: "length (ex_pending # replicate 49 ex_old) \<le> MAX_ARTICLES" by simp
  from cap run_homey_full have "length (saved ?hr) \<le> MAX_APPS" by blast
  then have b: "length (ex_app # replicate 49 ex_old_app) \<le> MAX_APPS" by simp
  from run_panther_full run_homey_full a b show ?thesis by blast
qed

section \<open>Identifiers in the saved list\<close>

lemma saved_panther_urls:
  assumes "main_panther dm existing (Inr items) web = Inr r"
  shows "map a_url (saved r)
    = take MAX_ARTICLES (map a_url (new_article_dicts dm existing items) @ map a_url existing)"
proof -
  let ?f = "\<lambda>c :: string \<times> string \<times> string \<times> string. snd (snd (snd c))"
  have u: "map a_url xs = map ?f (map a_core xs)" for xs
    by (simp add: a_core_def)
  have "map a_url (saved r) = map ?f (map a_core (saved r))" by (rule u)
  also have "\<dots> = map ?f (take MAX_ARTICLES
      (map a_core (new_article_dicts dm existing items) @ map a_core existing))"
    by (simp only: saved_panther_core [OF assms])
  also have "\<dots> = take MAX_ARTICLES
      (map ?f (map a_core (new_article_dicts dm existing items)) @ map ?f (map a_core existing))"
    by (simp only: take_map map_append [symmetric])
  also have "\<dots> = take MAX_ARTICLES
      (map a_url (new_article_dicts dm existing items) @ map a_url existing)"
    by (simp only: u [symmetric])
  finally show ?thesis .
qed

lemma new_article_dict_url: "a_url (new_article_dict c) = c_url c"
  by (cases c) (simp add: new_article_dict_def c_url_def)

lemma new_article_dicts_fresh:
  assumes "u \<in> set (map a_url (new_article_dicts dm existing items))"
  shows "u \<notin> set (map a_url existing)"
proof -
  from assms obtain c where c: "c \<in> set (parse_news_items dm items (set (map a_url existing)))"
      and u: "u = c_url c"
    by (auto simp: new_article_dicts_def new_article_dict_url)
  from parse_news_items_fresh [OF c] u show ?thesis by blast
qed

lemma new_products_fresh:
  "p \<in> set (new_products_of now existing all_products) \<Longrightarrow> p_id p \<notin> set (map p_id existing)"
  by (auto simp: new_products_of_def with_timestamp_def)

lemma new_apps_ids:
  "map app_id (new_apps_of web now existing sec)
     = map app_id_of (map app_url (new_apps_of web now existing sec))"
proof -
  have ok: "new_app_urls_ok (set (map app_id existing)) (new_app_urls existing sec)"
    by (rule new_app_urls_are_ok)
  have "app_id a = app_id_of (app_url a)" if a: "a \<in> set (new_apps_of web now existing sec)" for a
  proof -
    from a have 1: "app_id a = url_app_id (app_url a)"
      using fetch_new_apps_records [of web now "new_app_urls existing sec" "[]"]
      by (simp add: new_apps_of_def)
    from a have "app_url a \<in> set (map app_url (new_apps_of web now existing sec))" by simp
    with new_apps_subseq [of web now existing sec]
    have "app_url a \<in> set (new_app_urls existing sec)" by (rule subseq_set)
    with ok have "contains (app_url a) ''/app/''" by (simp add: new_app_urls_ok_def)
    with 1 show ?thesis by (simp add: url_app_id_def)
  qed
  then show ?thesis by simp
qed

lemma new_apps_ids_subseq:
  "subseq (map app_id (new_apps_of web now existing sec)) (map app_id_of (new_app_urls existing sec))"
  unfolding new_apps_ids using new_apps_subseq by (rule subseq_map)

lemma new_apps_ids_fresh:
  assumes "i \<in> set (map app_id (new_apps_of web now existing sec))"
  shows "i \<notin> set (map app_id existing)"
proof -
  from new_apps_ids_subseq [of web now existing sec] assms
  have "i \<in> set (map app_id_of (new_app_urls existing sec))" by (rule subseq_set)
  then obtain u where "u \<in> set (new_app_urls existing sec)" "i = app_id_of u" by auto
  then show ?thesis
    using new_app_urls_are_ok [of existing sec] by (simp add: new_app_urls_ok_def)
qed

lemma distinct_new_then_old:
  assumes "distinct xs" "distinct ys" "\<And>x. x \<in> set xs \<Longrightarrow> x \<notin> set ys"
  shows "distinct (take n (xs @ ys))"
proof -
  from assms have "distinct (xs @ ys)" by (simp only: distinct_append) blast
  then show ?thesis by (rule distinct_take)
qed

lemma distinct_panther:
  assumes run: "main_panther dm existing (Inr items) web = Inr r"
    and d: "distinct (map a_url existing)" "distinct (map a_url (new_article_dicts dm existing items))"
  shows "distinct (map a_url (saved r))"
  unfolding saved_panther_urls [OF run]
  using d(2) d(1) new_article_dicts_fresh by (rule distinct_new_then_old)

lemma distinct_komood:
  assumes run: "main_komood now pexisting api = Inr kr"
    and d: "distinct (map p_id pexisting)"
      "distinct (map p_id (new_products_of now pexisting (fst (fetch_all_products api))))"
  shows "distinct (map p_id (saved kr))"
proof -
  have "distinct (take (length (saved kr))
      (map p_id (new_products_of now pexisting (fst (fetch_all_products api))) @ map p_id pexisting))"
    using d(2) d(1)
  proof (rule distinct_new_then_old)
    fix x assume "x \<in> set (map p_id (new_products_of now pexisting (fst (fetch_all_products api))))"
    then show "x \<notin> set (map p_id pexisting)" using new_products_fresh by fastforce
  qed
  moreover have "saved kr = new_products_of now pexisting (fst (fetch_all_products api)) @ pexisting"
    using main_komood_run [OF run] by simp
  ultimately show ?thesis by simp
qed

lemma distinct_homey:
  assumes run: "main_homey now hexisting (Inr hsec) hweb = Inr hr"
    and d: "distinct (map app_id hexisting)" "distinct (map app_id_of (new_app_urls hexisting hsec))"
  shows "distinct (map app_id (saved hr))"
proof -
  have "distinct (map app_id (new_apps_of hweb now hexisting hsec))"
    using new_apps_ids_subseq d(2) by (rule subseq_distinct)
  then have "distinct (take MAX_APPS
      (map app_id (new_apps_of hweb now hexisting hsec) @ map app_id hexisting))"
    using d(1) new_apps_ids_fresh by (rule distinct_new_then_old)
  moreover have "saved hr = take MAX_APPS (new_apps_of hweb now hexisting hsec @ hexisting)"
    using main_homey_run [OF run] by simp
  ultimately show ?thesis by (simp only: take_map [symmetric] map_append)
qed

text \<open>
  Claim C1, as the code has it. No adapter emits a candidate whose identifier is in the
  known set, and Homey emits no URL twice. When the stored list has no identifier
  twice and the items found in the run have no identifier twice, the saved list has no
  identifier twice. Nothing removes a repetition that the stored list or the listing
  brings along.
\<close>

theorem saved_ids_distinct:
  "(\<forall>c \<in> set (parse_news_items dm items known). c_url c \<notin> known)
   \<and> (\<forall>p \<in> set (new_products_of now pexisting all_products).
         p_id p \<notin> set (map p_id pexisting))
   \<and> (\<forall>u \<in> set (parse_new_apps sec ids). app_id_of u \<notin> ids)
   \<and> distinct (parse_new_apps sec ids)
   \<and> (main_panther dm existing (Inr items) web = Inr r
        \<and> distinct (map a_url existing)
        \<and> distinct (map a_url (new_article_dicts dm existing items))
      \<longrightarrow> distinct (map a_url (saved r)))
   \<and> (main_komood now pexisting api = Inr kr
        \<and> distinct (map p_id pexisting)
        \<and> distinct (map p_id (new_products_of now pexisting (fst (fetch_all_products api))))
      \<longrightarrow> distinct (map p_id (saved kr)))
   \<and> (main_homey now hexisting (Inr hsec) hweb = Inr hr
        \<and> distinct (map app_id hexisting)
        \<and> distinct (map app_id_of (new_app_urls hexisting hsec))
      \<longrightarrow> distinct (map app_id (saved hr)))"
proof (intro conjI impI ballI)
  fix c assume "c \<in> set (parse_news_items dm items known)"
  then show "c_url c \<notin> known" using parse_news_items_fresh by blast
next
  fix p assume "p \<in> set (new_products_of now pexisting all_products)"
  then show "p_id p \<notin> set (map p_id pexisting)" by (rule new_products_fresh)
next
  fix u assume "u \<in> set (parse_new_apps sec ids)"
  then show "app_id_of u \<notin> ids"
    using parse_new_apps_inv [of ids sec] by (simp add: new_app_urls_ok_def)
next
  show "distinct (parse_new_apps sec ids)"
    using parse_new_apps_inv [of ids sec] by (simp add: new_app_urls_ok_def)
next
  assume "main_panther dm existing (Inr items) web = Inr r
        \<and> distinct (map a_url existing)
        \<and> distinct (map a_url (new_article_dicts dm existing items))"
  then show "distinct (map a_url (saved r))" using distinct_panther by blast
next
  assume "main_komood now pexisting api = Inr kr
        \<and> distinct (map p_id pexisting)
        \<and> distinct (map p_id (new_products_of now pexisting (fst (fetch_all_products api))))"
  then show "distinct (map p_id (saved kr))" using distinct_komood by blast
next
  assume "main_homey now hexisting (Inr hsec) hweb = Inr hr
        \<and> distinct (map app_id hexisting)
        \<and> distinct (map app_id_of (new_app_urls hexisting hsec))"
  then show "distinct (map app_id (saved hr))" using distinct_homey by blast
qed

text \<open>
  The example runs: a stored list and a listing without repetitions.
\<close>

theorem saved_ids_distinct_witness:
  "main_panther ex_date_match [ex_old] (Inr [ex_item]) web_down
     = Inr \<lparr>saved = [ex_pending, ex_old], feed = [ex_old], summary = None, exit_code = 1,
          requests = replicate 3 (a_url ex_pending)\<rparr>
   \<and> main_komood ''2025-03-01T10:00:00+01:00'' [ex_old_product] ex_api
     = Inr \<lparr>saved = [ex_product, ex_old_product], feed = [ex_product, ex_old_product],
          summary = Some [''Panther''], exit_code = 0, requests = [1, 2]\<rparr>
   \<and> main_homey ''2025-03-01T10:00:00+01:00'' [ex_old_app]
       (Inr (Some [''/en-us/app/alt/'', ''/en-us/app/neu/''])) app_web_up
     = Inr \<lparr>saved = [ex_app, ex_old_app], feed = [ex_app, ex_old_app],
          summary = Some [''Neu''], exit_code = 0, requests = [app_url ex_app]\<rparr>
   \<and> distinct (map a_url [ex_pending, ex_old])
   \<and> distinct (map p_id [ex_product, ex_old_product])
   \<and> distinct (map app_id [ex_app, ex_old_app])"
proof -
  let ?r = "\<lparr>saved = [ex_pending, ex_old], feed = [ex_old], summary = None, exit_code = 1,
          requests = replicate 3 (a_url ex_pending)\<rparr>"
  let ?kr = "\<lparr>saved = [ex_product, ex_old_product], feed = [ex_product, ex_old_product],
          summary = Some [''Panther''], exit_code = 0, requests = [1, 2 :: nat]\<rparr>"
  let ?hr = "\<lparr>saved = [ex_app, ex_old_app], feed = [ex_app, ex_old_app],
          summary = Some [''Neu''], exit_code = 0, requests = [app_url ex_app]\<rparr>"
  note t = saved_ids_distinct
    [where dm = ex_date_match and existing = "[ex_old]" and items = "[ex_item]"
       and web = web_down and r = ?r
       and now = "''2025-03-01T10:00:00+01:00''" and pexisting = "[ex_old_product]"
       and api = ex_api and kr = ?kr
       and hexisting = "[ex_old_app]" and hsec = "Some [''/en-us/app/alt/'', ''/en-us/app/neu/'']"
       and hweb = app_web_up and hr = ?hr]
  have p1: "distinct (map a_url [ex_old])" by simp
  have p2: "distinct (map a_url (new_article_dicts ex_date_match [ex_old] [ex_item]))"
    by code_simp
  have k1: "distinct (map p_id [ex_old_product])" by simp
  have k2: "distinct (map p_id (new_products_of ''2025-03-01T10:00:00+01:00'' [ex_old_product]
      (fst (fetch_all_products ex_api))))"
    by code_simp
  have h1: "distinct (map app_id [ex_old_app])" by simp
  have h2: "distinct (map app_id_of
      (new_app_urls [ex_old_app] (Some [''/en-us/app/alt/'', ''/en-us/app/neu/''])))"
    by code_simp
  note tp = t [THEN conjunct2, THEN conjunct2, THEN conjunct2, THEN conjunct2, THEN conjunct1]
  note tk = t [THEN conjunct2, THEN conjunct2, THEN conjunct2, THEN conjunct2, THEN conjunct2,
      THEN conjunct1]
  note th = t [THEN conjunct2, THEN conjunct2, THEN conjunct2, THEN conjunct2, THEN conjunct2,
      THEN conjunct2]
  from tp run_panther_down p1 p2 have "distinct (map a_url (saved ?r))" by blast
  then have a: "distinct (map a_url [ex_pending, ex_old])" by simp
  from tk run_komood k1 k2 have "distinct (map p_id (saved ?kr))" by blast
  then have b: "distinct (map p_id [ex_product, ex_old_product])" by simp
  from th run_homey_up h1 h2 have "distinct (map app_id (saved ?hr))" by blast
  then have c: "distinct (map app_id [ex_app, ex_old_app])" by simp
  from run_panther_down run_komood run_homey_up a b c show ?thesis by (intro conjI)
qed

text \<open>
  Claim C1 as stated fails where one listing holds an identifier twice. Komood Store:
  the handles \<open>panther\<close> and \<open>ausverkauft-panther\<close> on one page are both cleaned to
  \<open>panther\<close> and both saved. Augsburger Panther: an article linked by two entries is
  emitted and saved twice.
\<close>

theorem saved_ids_distinct_counterexample:
  "(case main_komood ''2025-03-01T10:00:00+01:00'' []
          (\<lambda>n. if n = 1
                then Inr [\<lparr>handle = ''panther'', raw_title = ''Panther'', price = [],
                            body_text = ''Baumwolle'', image_src = []\<rparr>,
                          \<lparr>handle = ''ausverkauft-panther'', raw_title = ''AUSVERKAUFT: Panther'',
                            price = [], body_text = ''Baumwolle'', image_src = []\<rparr>]
                else Inr [])
    of Inl e \<Rightarrow> [] | Inr r \<Rightarrow> map p_id (saved r))
   = [''panther'', ''panther'']
   \<and> (case main_panther (\<lambda>s. None) []
          (Inr [\<lparr>link = Some ''/panther/news/neu.html'', spans = [''heute'', ''Neu'']\<rparr>,
                \<lparr>link = Some ''/panther/news/neu.html'', spans = [''heute'', ''Neu'']\<rparr>])
          (\<lambda>n url. Inl Timeout)
    of Inl e \<Rightarrow> [] | Inr r \<Rightarrow> map a_url (saved r))
   = [''https://www.aev-panther.de/panther/news/neu.html'',
      ''https://www.aev-panther.de/panther/news/neu.html'']"
  by code_simp

section \<open>Records without a description\<close>

lemma new_apps_named:
  "a \<in> set (new_apps_of web now existing sec) \<Longrightarrow> app_name a \<noteq> []"
  using fetch_new_apps_records [of web now "new_app_urls existing sec" "[]"]
  by (simp add: new_apps_of_def)

lemma new_apps_failing:
  "\<forall>n. isl (web n u) \<Longrightarrow> u \<notin> app_url ` set (new_apps_of web now existing sec)"
  unfolding new_apps_of_def by (rule fetch_new_apps_failing)

lemma saved_panther_pending:
  assumes run: "main_panther dm existing (Inr items) web = Inr r"
    and a: "a \<in> set (saved r)" "a_description a = []"
  shows "a \<in> set (merged_panther dm existing items) \<and> a_url a \<in> set (requests r)
     \<and> a \<notin> set (feed r)"
proof -
  let ?m = "merged_panther dm existing items"
  from run have s: "saved r = fst (enrich_articles web ?m [])"
    and q: "requests r = snd (snd (enrich_articles web ?m []))"
    and f: "feed r = generate_rss_feed_panther (saved r)"
    using main_panther_run [OF run] by simp_all
  from a s have m: "a \<in> set ?m" using enrich_articles_pending_kept [of web ?m "[]"] by simp
  with a(2) q have "a_url a \<in> set (requests r)"
    using enrich_articles_asks_pending [of ?m web "[]"] by simp
  moreover from a(2) f have "a \<notin> set (feed r)" by (simp add: generate_rss_feed_panther_def)
  ultimately show ?thesis using m by simp
qed

lemma merged_panther_asked:
  assumes run: "main_panther dm existing (Inr items) web = Inr r"
    and a: "a \<in> set (merged_panther dm existing items)" "a_description a = []"
  shows "a_url a \<in> set (requests r)"
  using main_panther_run [OF run] a
    enrich_articles_asks_pending [of "merged_panther dm existing items" web "[]"] by simp

text \<open>
  Claim C4, as the code has it. Augsburger Panther saves every record of the trimmed
  merged list, enriched or not, and the feed holds the saved records with a
  description. A record of the merged list without a description, for whose URL no
  answer of the run enriches, is saved as it was (so without a description), is not in
  the feed, and its URL was requested at least \<open>MAX_RETRIES\<close> times; every record saved
  without a description was in the merged list and was requested. In the run that
  follows, with the saved list as stored list, a saved record stays in the merged list
  unless the trim cuts it off, and every record without a description in the merged
  list has its detail page requested again. Homey saves only candidates with an
  enriching answer: every new record has a name; a URL for which no answer of the run
  enriches, be it an exception or a page without a name, is not the URL of a new
  record although, as a candidate, it was requested at least \<open>MAX_RETRIES\<close> times; and
  the requests of a run, also of the next one, are requests for exactly the candidates
  of that run, so a dropped candidate is attempted again exactly when a later listing
  makes it a candidate again. Komood Store has no enrichment step.
\<close>

theorem pending_records:
  "(main_panther dm existing (Inr items) web = Inr r \<longrightarrow>
      map a_core (saved r) = map a_core (merged_panther dm existing items)
      \<and> feed r = filter (\<lambda>a. a_description a \<noteq> []) (saved r)
      \<and> (\<forall>i < length (merged_panther dm existing items).
            a_description (merged_panther dm existing items ! i) = []
            \<and> (\<forall>x \<in> set (answers web 0 (requests r)).
                  fst x = a_url (merged_panther dm existing items ! i)
                  \<longrightarrow> fetched_content x = None)
            \<longrightarrow> saved r ! i = merged_panther dm existing items ! i
              \<and> saved r ! i \<notin> set (feed r)
              \<and> MAX_RETRIES
                  \<le> count_list (requests r) (a_url (merged_panther dm existing items ! i)))
      \<and> (\<forall>a \<in> set (saved r). a_description a = [] \<longrightarrow>
            a \<in> set (merged_panther dm existing items) \<and> a_url a \<in> set (requests r)
            \<and> a \<notin> set (feed r)))
   \<and> (main_panther dm (saved r) (Inr items_next) web_next = Inr r_next \<longrightarrow>
      (\<forall>j < length (saved r).
          length (new_article_dicts dm (saved r) items_next) + j < MAX_ARTICLES \<longrightarrow>
          merged_panther dm (saved r) items_next
            ! (length (new_article_dicts dm (saved r) items_next) + j) = saved r ! j)
      \<and> (\<forall>a \<in> set (merged_panther dm (saved r) items_next). a_description a = [] \<longrightarrow>
            a_url a \<in> set (requests r_next)))
   \<and> (main_homey now hexisting (Inr sec) hweb = Inr hr \<longrightarrow>
      saved hr = take MAX_APPS (new_apps_of hweb now hexisting sec @ hexisting)
      \<and> (\<forall>a \<in> set (new_apps_of hweb now hexisting sec). app_name a \<noteq> [])
      \<and> set (requests hr) = set (new_app_urls hexisting sec)
      \<and> (\<forall>u. (\<forall>x \<in> set (answers hweb 0 (requests hr)).
                  fst x = u \<longrightarrow> stored_app now x = None)
            \<longrightarrow> u \<notin> app_url ` set (new_apps_of hweb now hexisting sec)
              \<and> (u \<in> set (new_app_urls hexisting sec)
                    \<longrightarrow> MAX_RETRIES \<le> count_list (requests hr) u))
      \<and> (\<forall>u. (\<forall>n. isl (hweb n u)) \<longrightarrow>
            u \<notin> app_url ` set (new_apps_of hweb now hexisting sec)))
   \<and> (main_homey now_next (saved hr) (Inr sec_next) hweb_next = Inr hr_next \<longrightarrow>
      set (requests hr_next) = set (new_app_urls (saved hr) sec_next))"
proof (intro conjI impI ballI allI)
  assume run: "main_panther dm existing (Inr items) web = Inr r"
  from main_panther_run [OF run]
  show "map a_core (saved r) = map a_core (merged_panther dm existing items)"
    by (simp add: enrich_articles_core)
  from main_panther_run [OF run]
  show "feed r = filter (\<lambda>a. a_description a \<noteq> []) (saved r)"
    by (simp add: generate_rss_feed_panther_def)
  {
    fix a assume a: "a \<in> set (saved r)" "a_description a = []"
    from saved_panther_pending [OF run a]
    show "a \<in> set (merged_panther dm existing items)" "a_url a \<in> set (requests r)"
      "a \<notin> set (feed r)" by simp_all
  }
  fix i
  assume i: "i < length (merged_panther dm existing items)"
    and h: "a_description (merged_panther dm existing items ! i) = []
            \<and> (\<forall>x \<in> set (answers web 0 (requests r)).
                  fst x = a_url (merged_panther dm existing items ! i)
                  \<longrightarrow> fetched_content x = None)"
  from h have "a_description (merged_panther dm existing items ! i) = []"
    and "\<forall>x \<in> set (answers web 0 (requests r)).
                  fst x = a_url (merged_panther dm existing items ! i)
                  \<longrightarrow> fetched_content x = None" by simp_all
  note p = main_panther_answers [OF run i this]
  show "saved r ! i = merged_panther dm existing items ! i"
    by (rule p [THEN conjunct1])
  show "saved r ! i \<notin> set (feed r)"
    by (rule p [THEN conjunct2, THEN conjunct1])
  show "MAX_RETRIES \<le> count_list (requests r) (a_url (merged_panther dm existing items ! i))"
    by (rule p [THEN conjunct2, THEN conjunct2])
next
  fix j
  assume "j < length (saved r)"
    "length (new_article_dicts dm (saved r) items_next) + j < MAX_ARTICLES"
  then show "merged_panther dm (saved r) items_next
            ! (length (new_article_dicts dm (saved r) items_next) + j) = saved r ! j"
    by (rule merged_panther_keeps)
next
  fix a assume "main_panther dm (saved r) (Inr items_next) web_next = Inr r_next"
    "a \<in> set (merged_panther dm (saved r) items_next)" "a_description a = []"
  then show "a_url a \<in> set (requests r_next)" by (rule merged_panther_asked)
next
  assume run: "main_homey now hexisting (Inr sec) hweb = Inr hr"
  from main_homey_run [OF run]
  show "saved hr = take MAX_APPS (new_apps_of hweb now hexisting sec @ hexisting)" by simp
  show "set (requests hr) = set (new_app_urls hexisting sec)"
    by (rule main_homey_answers(2) [OF run])
  {
    fix u assume "\<forall>n. isl (hweb n u)"
    then show "u \<notin> app_url ` set (new_apps_of hweb now hexisting sec)"
      by (rule new_apps_failing)
  }
  fix u assume f: "\<forall>x \<in> set (answers hweb 0 (requests hr)). fst x = u \<longrightarrow> stored_app now x = None"
  then have "\<not> (\<exists>x \<in> set (answers hweb 0 (requests hr)). fst x = u \<and> stored_app now x \<noteq> None)"
    by auto
  then have n: "u \<notin> set (map app_url (new_apps_of hweb now hexisting sec))"
    unfolding new_apps_url_iff [OF run] .
  then show "u \<notin> app_url ` set (new_apps_of hweb now hexisting sec)" by simp
  assume "u \<in> set (new_app_urls hexisting sec)"
  with main_homey_answers(3) [OF run] n show "MAX_RETRIES \<le> count_list (requests hr) u"
    by auto
next
  fix a assume "a \<in> set (new_apps_of hweb now hexisting sec)"
  then show "app_name a \<noteq> []" by (rule new_apps_named)
next
  assume "main_homey now_next (saved hr) (Inr sec_next) hweb_next = Inr hr_next"
  then show "set (requests hr_next) = set (new_app_urls (saved hr) sec_next)"
    by (rule main_homey_answers(2))
qed

text \<open>
  Two runs of Augsburger Panther after one another, the detail pages down in the first
  and up in the second, and two such runs of Homey.
\<close>

theorem pending_records_witness:
  "main_panther ex_date_match [ex_old] (Inr [ex_item]) web_down
     = Inr \<lparr>saved = [ex_pending, ex_old], feed = [ex_old], summary = None, exit_code = 1,
          requests = replicate 3 (a_url ex_pending)\<rparr>
   \<and> main_panther ex_date_match [ex_pending, ex_old] (Inr [ex_item]) web_up
     = Inr \<lparr>saved = [ex_enriched, ex_old], feed = [ex_enriched, ex_old],
          summary = Some [''2025-03-01 Neu''], exit_code = 0, requests = [a_url ex_pending]\<rparr>
   \<and> main_homey ''2025-03-01T10:00:00+01:00'' [ex_old_app]
       (Inr (Some [''/en-us/app/alt/'', ''/en-us/app/neu/''])) app_web_down
     = Inr \<lparr>saved = [ex_old_app], feed = [ex_old_app], summary = None, exit_code = 1,
          requests = replicate 3 (app_url ex_app)\<rparr>
   \<and> main_homey ''2025-03-01T10:00:00+01:00'' [ex_old_app]
       (Inr (Some [''/en-us/app/alt/'', ''/en-us/app/neu/''])) app_web_up
     = Inr \<lparr>saved = [ex_app, ex_old_app], feed = [ex_app, ex_old_app],
          summary = Some [''Neu''], exit_code = 0, requests = [app_url ex_app]\<rparr>
   \<and> merged_panther ex_date_match [ex_old] [ex_item] = [ex_pending, ex_old]
   \<and> a_description ex_pending = []
   \<and> ex_pending \<notin> set [ex_old]
   \<and> MAX_RETRIES \<le> count_list (replicate 3 (a_url ex_pending)) (a_url ex_pending)
   \<and> a_url ex_pending \<in> set (replicate 3 (a_url ex_pending))
   \<and> merged_panther ex_date_match [ex_pending, ex_old] [ex_item] ! 0 = ex_pending
   \<and> a_url ex_pending \<in> set [a_url ex_pending]
   \<and> app_url ex_app
       \<notin> app_url ` set (new_apps_of app_web_down ''2025-03-01T10:00:00+01:00'' [ex_old_app]
                          (Some [''/en-us/app/alt/'', ''/en-us/app/neu/'']))
   \<and> MAX_RETRIES \<le> count_list (replicate 3 (app_url ex_app)) (app_url ex_app)
   \<and> set [app_url ex_app]
       = set (new_app_urls [ex_old_app] (Some [''/en-us/app/alt/'', ''/en-us/app/neu/'']))
   \<and> (\<forall>n. isl (app_web_down n (app_url ex_app)))"
proof -
  let ?r = "\<lparr>saved = [ex_pending, ex_old], feed = [ex_old], summary = None, exit_code = 1,
          requests = replicate 3 (a_url ex_pending)\<rparr>"
  let ?r2 = "\<lparr>saved = [ex_enriched, ex_old], feed = [ex_enriched, ex_old],
          summary = Some [''2025-03-01 Neu''], exit_code = 0, requests = [a_url ex_pending]\<rparr>"
  let ?hr = "\<lparr>saved = [ex_old_app], feed = [ex_old_app], summary = None, exit_code = 1,
          requests = replicate 3 (app_url ex_app)\<rparr>"
  let ?hr2 = "\<lparr>saved = [ex_app, ex_old_app], feed = [ex_app, ex_old_app],
          summary = Some [''Neu''], exit_code = 0, requests = [app_url ex_app]\<rparr>"
  let ?sec = "Some [''/en-us/app/alt/'', ''/en-us/app/neu/'']"
  note t = pending_records
    [where dm = ex_date_match and existing = "[ex_old]" and items = "[ex_item]"
       and web = web_down and r = ?r
       and items_next = "[ex_item]" and web_next = web_up and r_next = ?r2
       and now = "''2025-03-01T10:00:00+01:00''" and hexisting = "[ex_old_app]"
       and sec = ?sec and hweb = app_web_down and hr = ?hr
       and now_next = "''2025-03-01T10:00:00+01:00''" and sec_next = ?sec
       and hweb_next = app_web_up and hr_next = ?hr2]
  have m: "merged_panther ex_date_match [ex_old] [ex_item] = [ex_pending, ex_old]"
    by code_simp
  have m2: "merged_panther ex_date_match [ex_pending, ex_old] [ex_item] = [ex_pending, ex_old]"
    by code_simp
  have d: "a_description ex_pending = []" by (simp add: ex_pending_def)
  have run2: "main_panther ex_date_match (saved ?r) (Inr [ex_item]) web_up = Inr ?r2"
    using run_panther_up by simp
  have hrun2: "main_homey ''2025-03-01T10:00:00+01:00'' (saved ?hr) (Inr ?sec) app_web_up
      = Inr ?hr2"
    using run_homey_up by simp
  note tp = t [THEN conjunct1, THEN mp, OF run_panther_down]
  note tn = t [THEN conjunct2, THEN conjunct1, THEN mp, OF run2]
  note th = t [THEN conjunct2, THEN conjunct2, THEN conjunct1, THEN mp, OF run_homey_down]
  note tm = t [THEN conjunct2, THEN conjunct2, THEN conjunct2, THEN mp, OF hrun2]
  have i0: "0 < length (merged_panther ex_date_match [ex_old] [ex_item])" by (simp add: m)
  have f0: "a_description (merged_panther ex_date_match [ex_old] [ex_item] ! 0) = []
      \<and> (\<forall>x \<in> set (answers web_down 0 (requests ?r)).
            fst x = a_url (merged_panther ex_date_match [ex_old] [ex_item] ! 0)
            \<longrightarrow> fetched_content x = None)"
    by code_simp
  from tp [THEN conjunct2, THEN conjunct2, THEN conjunct1, THEN spec, THEN mp, OF i0,
      THEN mp, OF f0]
  have "saved ?r ! 0 \<notin> set (feed ?r)
      \<and> MAX_RETRIES
          \<le> count_list (requests ?r) (a_url (merged_panther ex_date_match [ex_old] [ex_item] ! 0))"
    by (rule conjunct2)
  then have b: "ex_pending \<notin> set [ex_old]"
    and c: "MAX_RETRIES \<le> count_list (replicate 3 (a_url ex_pending)) (a_url ex_pending)"
    by (simp_all add: m)
  have s: "ex_pending \<in> set (saved ?r)" by simp
  from tp [THEN conjunct2, THEN conjunct2, THEN conjunct2, THEN bspec, OF s, THEN mp, OF d]
  have "a_url ex_pending \<in> set (requests ?r)" by blast
  then have a: "a_url ex_pending \<in> set (replicate 3 (a_url ex_pending))" by simp
  have j0: "0 < length (saved ?r)" by simp
  have j1: "length (new_article_dicts ex_date_match (saved ?r) [ex_item]) + 0 < MAX_ARTICLES"
    by code_simp
  have n0: "length (new_article_dicts ex_date_match [ex_pending, ex_old] [ex_item]) = 0"
    by code_simp
  from tn [THEN conjunct1, THEN spec, THEN mp, OF j0, THEN mp, OF j1]
  have k: "merged_panther ex_date_match [ex_pending, ex_old] [ex_item] ! 0 = ex_pending"
    by (simp add: n0)
  have p2: "ex_pending \<in> set (merged_panther ex_date_match (saved ?r) [ex_item])"
    by (simp add: m2)
  from tn [THEN conjunct2, THEN bspec, OF p2, THEN mp, OF d]
  have e: "a_url ex_pending \<in> set [a_url ex_pending]" by simp
  have hf: "\<forall>x \<in> set (answers app_web_down 0 (requests ?hr)).
      fst x = app_url ex_app \<longrightarrow> stored_app ''2025-03-01T10:00:00+01:00'' x = None"
    by code_simp
  have hc: "app_url ex_app \<in> set (new_app_urls [ex_old_app] ?sec)" by code_simp
  note thf = th [THEN conjunct2, THEN conjunct2, THEN conjunct2, THEN conjunct1, THEN spec,
      THEN mp, OF hf]
  have down: "\<forall>n. isl (app_web_down n (app_url ex_app))" by (simp add: app_web_down_def)
  note thd = th [THEN conjunct2, THEN conjunct2, THEN conjunct2, THEN conjunct2, THEN spec,
      THEN mp, OF down]
  from thf [THEN conjunct1] thd
  have g: "app_url ex_app
       \<notin> app_url ` set (new_apps_of app_web_down ''2025-03-01T10:00:00+01:00'' [ex_old_app]
                          (Some [''/en-us/app/alt/'', ''/en-us/app/neu/'']))"
    by blast
  from thf [THEN conjunct2, THEN mp, OF hc]
  have h: "MAX_RETRIES \<le> count_list (replicate 3 (app_url ex_app)) (app_url ex_app)"
    by simp
  from tm have l: "set [app_url ex_app]
       = set (new_app_urls [ex_old_app] (Some [''/en-us/app/alt/'', ''/en-us/app/neu/'']))"
    by simp
  from run_panther_down run_panther_up run_homey_down run_homey_up m d b c a k e g h l down
  show ?thesis by (intro conjI)
qed

text \<open>
  Claim C4 as stated fails for Homey: the one candidate is requested three times, all
  three requests fail, and no record of it is saved.
\<close>

theorem pending_records_counterexample:
  "main_homey ''2025-03-01T10:00:00+01:00'' [] (Inr (Some [''/en-us/app/neu/'']))
     (\<lambda>n url. Inl Timeout)
   = Inr \<lparr>saved = [], feed = [], summary = None, exit_code = 1,
          requests = [''https://homey.app/en-us/app/neu/'', ''https://homey.app/en-us/app/neu/'',
                      ''https://homey.app/en-us/app/neu/'']\<rparr>"
  by code_simp

section \<open>A failing listing fetch\<close>

text \<open>
  Claim C7, as the code has it. In Augsburger Panther and Homey the exception of the
  listing fetch leaves \<open>main\<close>, which has saved nothing. In Komood Store no run is ended
  by a page fetch: every run reaches the save, and what it saves is the new products of
  the pages 1 to \<open>last_page\<close> followed by the stored list; a page whose fetch raises
  ends the pagination (it is the last page when no earlier page stopped it) and adds no
  product.
\<close>

theorem listing_failure:
  "main_panther dm existing (Inl e) web = Inl e
   \<and> main_homey now hexisting (Inl e) hweb = Inl e
   \<and> (\<exists>kr. main_komood now pexisting api = Inr kr
        \<and> saved kr
          = new_products_of now pexisting
              (concat (map (page_products api) [1..<Suc (last_page api)])) @ pexisting)
   \<and> (1 \<le> k \<and> k \<le> 50 \<and> isl (api k) \<and> (\<forall>j. 1 \<le> j \<and> j < k \<longrightarrow> \<not> page_stops (api j))
        \<longrightarrow> last_page api = k \<and> page_products api k = [])"
proof (intro conjI impI)
  show "main_panther dm existing (Inl e) web = Inl e" by (simp add: main_panther_def)
  show "main_homey now hexisting (Inl e) hweb = Inl e" by (simp add: main_homey_def)
  show "\<exists>kr. main_komood now pexisting api = Inr kr
        \<and> saved kr
          = new_products_of now pexisting
              (concat (map (page_products api) [1..<Suc (last_page api)])) @ pexisting"
    by (simp add: main_komood_def Let_def fetch_all_products_pages)
next
  assume a: "1 \<le> k \<and> k \<le> 50 \<and> isl (api k) \<and> (\<forall>j. 1 \<le> j \<and> j < k \<longrightarrow> \<not> page_stops (api j))"
  then have s: "page_stops (api k)" by (auto simp: page_stops_def isl_def)
  with a show "last_page api = k" using last_page_first_stop [of k api] by blast
  from s show "page_products api k = []" by (rule page_products_stop)
qed

text \<open>
  The listing fetch times out; in the catalogue the first page times out.
\<close>

theorem listing_failure_witness:
  "(1::nat) \<le> 1 \<and> (1::nat) \<le> 50 \<and> isl ((\<lambda>n. Inl Timeout :: error + raw_product list) 1)
   \<and> main_panther ex_date_match [ex_old] (Inl Timeout) web_up = Inl Timeout
   \<and> main_homey ''2025-03-01T10:00:00+01:00'' [ex_old_app] (Inl Timeout) app_web_up = Inl Timeout
   \<and> last_page (\<lambda>n. Inl Timeout) = 1
   \<and> page_products (\<lambda>n. Inl Timeout) 1 = []"
proof -
  note t = listing_failure
    [where dm = ex_date_match and existing = "[ex_old]" and e = Timeout and web = web_up
       and now = "''2025-03-01T10:00:00+01:00''" and hexisting = "[ex_old_app]"
       and hweb = app_web_up and pexisting = "[]" and api = "\<lambda>n. Inl Timeout" and k = 1]
  have h: "(1::nat) \<le> 1 \<and> (1::nat) \<le> 50 \<and> isl ((\<lambda>n. Inl Timeout :: error + raw_product list) 1)
      \<and> (\<forall>j. 1 \<le> j \<and> j < (1::nat) \<longrightarrow> \<not> page_stops ((\<lambda>n. Inl Timeout) j))"
    by simp
  note t4 = t [THEN conjunct2, THEN conjunct2, THEN conjunct2, THEN mp, OF h]
  from h have h': "(1::nat) \<le> 1" "(1::nat) \<le> 50"
    "isl ((\<lambda>n. Inl Timeout :: error + raw_product list) 1)" by simp_all
  from h' t [THEN conjunct1] t [THEN conjunct2, THEN conjunct1] t4 [THEN conjunct1]
    t4 [THEN conjunct2]
  show ?thesis by (intro conjI)
qed

text \<open>
  Claim C7 as stated fails for Komood Store. With the first page timing out the run
  ends with exit code 1 after rewriting the store with the stored list; with the second
  page timing out the product of the first page is saved and the run ends with exit
  code 0.
\<close>

theorem listing_failure_counterexample:
  "main_komood ''2025-03-01T10:00:00+01:00''
     [\<lparr>p_id = ''loewe'', p_title = ''Loewe'', p_description = ''Leinen'',
       p_url = ''https://www.komood.store/products/loewe'', p_image = [],
       p_timestamp = ''2025-01-01T10:00:00+01:00''\<rparr>]
     (\<lambda>n. Inl Timeout)
   = Inr \<lparr>saved = [\<lparr>p_id = ''loewe'', p_title = ''Loewe'', p_description = ''Leinen'',
                    p_url = ''https://www.komood.store/products/loewe'', p_image = [],
                    p_timestamp = ''2025-01-01T10:00:00+01:00''\<rparr>],
          feed = [\<lparr>p_id = ''loewe'', p_title = ''Loewe'', p_description = ''Leinen'',
                    p_url = ''https://www.komood.store/products/loewe'', p_image = [],
                    p_timestamp = ''2025-01-01T10:00:00+01:00''\<rparr>],
          summary = None, exit_code = 1, requests = [1]\<rparr>
   \<and> main_komood ''2025-03-01T10:00:00+01:00'' []
     (\<lambda>n. if n = 1
           then Inr [\<lparr>handle = ''panther'', raw_title = ''Panther'', price = [],
                       body_text = ''Baumwolle'', image_src = []\<rparr>]
           else Inl Timeout)
   = Inr \<lparr>saved = [\<lparr>p_id = ''panther'', p_title = ''Panther'', p_description = ''Baumwolle'',
                    p_url = ''https://www.komood.store/products/panther'', p_image = [],
                    p_timestamp = ''2025-03-01T10:00:00+01:00''\<rparr>],
          feed = [\<lparr>p_id = ''panther'', p_title = ''Panther'', p_description = ''Baumwolle'',
                    p_url = ''https://www.komood.store/products/panther'', p_image = [],
                    p_timestamp = ''2025-03-01T10:00:00+01:00''\<rparr>],
          summary = Some [''Panther''], exit_code = 0, requests = [1, 2]\<rparr>"
  by code_simp

section \<open>Exit code and commit summary\<close>

text \<open>
  Claim C8, as the code has it. The exit code is 0 or 1 in every run that reaches its
  end, and the summary block is printed exactly with exit code 0. Augsburger Panther
  exits with 0 exactly when some record of the merged list, new or stored, went from no
  description to a description in this run, and prints once for each such record;
  Komood Store exits with 0 exactly when some listed product has an identifier that is
  not stored, and prints once for each such product; Homey exits with 0 exactly when
  some answer of the run enriches (the new records are the records of the enriching
  answers, and the requests are requests for the candidates), and prints once for each
  new record. What is printed for a record is one line when it holds no line break.
\<close>

theorem exit_code_summary:
  "(main_panther dm existing (Inr items) web = Inr r \<longrightarrow>
      (exit_code r = 0 \<longleftrightarrow>
         filter newly_enriched (zip (merged_panther dm existing items) (saved r)) \<noteq> [])
      \<and> (exit_code r = 1 \<longleftrightarrow>
         filter newly_enriched (zip (merged_panther dm existing items) (saved r)) = [])
      \<and> summary r
        = (if exit_code r = 0
           then Some (map (\<lambda>ab. summary_line (snd ab))
                  (filter newly_enriched (zip (merged_panther dm existing items) (saved r))))
           else None))
   \<and> (main_komood now pexisting api = Inr kr \<longrightarrow>
      (exit_code kr = 0 \<longleftrightarrow> new_products_of now pexisting (fst (fetch_all_products api)) \<noteq> [])
      \<and> (exit_code kr = 1 \<longleftrightarrow> new_products_of now pexisting (fst (fetch_all_products api)) = [])
      \<and> summary kr
        = (if exit_code kr = 0
           then Some (map p_title (new_products_of now pexisting (fst (fetch_all_products api))))
           else None)
      \<and> (exit_code kr = 0 \<longleftrightarrow>
           (\<exists>p \<in> set (fst (fetch_all_products api)). lp_id p \<notin> set (map p_id pexisting))))
   \<and> (main_homey now hexisting (Inr sec) hweb = Inr hr \<longrightarrow>
      (exit_code hr = 0 \<longleftrightarrow> new_apps_of hweb now hexisting sec \<noteq> [])
      \<and> (exit_code hr = 1 \<longleftrightarrow> new_apps_of hweb now hexisting sec = [])
      \<and> summary hr
        = (if exit_code hr = 0 then Some (map app_name (new_apps_of hweb now hexisting sec))
           else None)
      \<and> new_apps_of hweb now hexisting sec
        = List.map_filter (stored_app now) (answers hweb 0 (requests hr))
      \<and> set (requests hr) = set (new_app_urls hexisting sec)
      \<and> (exit_code hr = 0 \<longleftrightarrow>
           (\<exists>x \<in> set (answers hweb 0 (requests hr)). stored_app now x \<noteq> None)))
   \<and> ((\<forall>s \<in> set strs. CHR 0x0A \<notin> set s) \<longrightarrow> printed_lines strs = strs)"
proof (intro conjI impI)
  assume run: "main_panther dm existing (Inr items) web = Inr r"
  let ?m = "merged_panther dm existing items"
  let ?u = "fst (snd (enrich_articles web ?m []))"
  have u: "?u = map snd (filter newly_enriched (zip ?m (saved r)))"
    using main_panther_run [OF run] enrich_articles_updated [of web ?m "[]"] by simp
  have e: "exit_code r = (if ?u \<noteq> [] then 0 else 1)"
    and s: "summary r = (if ?u \<noteq> [] then Some (map summary_line ?u) else None)"
    using main_panther_run [OF run] by simp_all
  from e u show "exit_code r = 0 \<longleftrightarrow> filter newly_enriched (zip ?m (saved r)) \<noteq> []" by simp
  from e u show "exit_code r = 1 \<longleftrightarrow> filter newly_enriched (zip ?m (saved r)) = []" by simp
  from e s u show "summary r
        = (if exit_code r = 0
           then Some (map (\<lambda>ab. summary_line (snd ab)) (filter newly_enriched (zip ?m (saved r))))
           else None)"
    by (simp add: comp_def)
next
  assume run: "main_komood now pexisting api = Inr kr"
  from main_komood_run [OF run]
  show "exit_code kr = 0 \<longleftrightarrow> new_products_of now pexisting (fst (fetch_all_products api)) \<noteq> []"
    "exit_code kr = 1 \<longleftrightarrow> new_products_of now pexisting (fst (fetch_all_products api)) = []"
    "summary kr
        = (if exit_code kr = 0
           then Some (map p_title (new_products_of now pexisting (fst (fetch_all_products api))))
           else None)"
    by simp_all
  from main_komood_run [OF run]
  show "exit_code kr = 0 \<longleftrightarrow>
           (\<exists>p \<in> set (fst (fetch_all_products api)). lp_id p \<notin> set (map p_id pexisting))"
    by (auto simp: new_products_of_def filter_empty_conv)
next
  assume run: "main_homey now hexisting (Inr sec) hweb = Inr hr"
  from main_homey_run [OF run]
  show "exit_code hr = 0 \<longleftrightarrow> new_apps_of hweb now hexisting sec \<noteq> []"
    "exit_code hr = 1 \<longleftrightarrow> new_apps_of hweb now hexisting sec = []"
    "summary hr
        = (if exit_code hr = 0 then Some (map app_name (new_apps_of hweb now hexisting sec))
           else None)"
    by simp_all
  show a: "new_apps_of hweb now hexisting sec
        = List.map_filter (stored_app now) (answers hweb 0 (requests hr))"
    by (rule main_homey_answers(1) [OF run])
  show "set (requests hr) = set (new_app_urls hexisting sec)"
    by (rule main_homey_answers(2) [OF run])
  have "new_apps_of hweb now hexisting sec \<noteq> [] \<longleftrightarrow>
      (\<exists>x \<in> set (answers hweb 0 (requests hr)). stored_app now x \<noteq> None)"
  proof -
    have "new_apps_of hweb now hexisting sec \<noteq> []
        \<longleftrightarrow> (\<exists>a. a \<in> set (new_apps_of hweb now hexisting sec))"
      by (cases "new_apps_of hweb now hexisting sec") auto
    also have "\<dots> \<longleftrightarrow> (\<exists>a. \<exists>x \<in> set (answers hweb 0 (requests hr)). stored_app now x = Some a)"
      unfolding a map_filter_set ..
    also have "\<dots> \<longleftrightarrow> (\<exists>x \<in> set (answers hweb 0 (requests hr)). stored_app now x \<noteq> None)"
      by auto
    finally show ?thesis .
  qed
  with main_homey_run [OF run]
  show "exit_code hr = 0 \<longleftrightarrow>
           (\<exists>x \<in> set (answers hweb 0 (requests hr)). stored_app now x \<noteq> None)"
    by simp
next
  assume "\<forall>s \<in> set strs. CHR 0x0A \<notin> set s"
  then show "printed_lines strs = strs" by (rule printed_lines_no_break)
qed

text \<open>
  The example runs: a stored record is enriched, a product is new, and the details of
  the one candidate are not fetched; the one string printed has no line break.
\<close>

theorem exit_code_summary_witness:
  "main_panther ex_date_match [ex_pending, ex_old] (Inr [ex_item]) web_up
     = Inr \<lparr>saved = [ex_enriched, ex_old], feed = [ex_enriched, ex_old],
          summary = Some [''2025-03-01 Neu''], exit_code = 0, requests = [a_url ex_pending]\<rparr>
   \<and> main_komood ''2025-03-01T10:00:00+01:00'' [ex_old_product] ex_api
     = Inr \<lparr>saved = [ex_product, ex_old_product], feed = [ex_product, ex_old_product],
          summary = Some [''Panther''], exit_code = 0, requests = [1, 2]\<rparr>
   \<and> main_homey ''2025-03-01T10:00:00+01:00'' [ex_old_app]
       (Inr (Some [''/en-us/app/alt/'', ''/en-us/app/neu/''])) app_web_down
     = Inr \<lparr>saved = [ex_old_app], feed = [ex_old_app], summary = None, exit_code = 1,
          requests = replicate 3 (app_url ex_app)\<rparr>
   \<and> filter newly_enriched
         (zip (merged_panther ex_date_match [ex_pending, ex_old] [ex_item])
            [ex_enriched, ex_old]) \<noteq> []
   \<and> new_products_of ''2025-03-01T10:00:00+01:00'' [ex_old_product]
         (fst (fetch_all_products ex_api)) \<noteq> []
   \<and> new_apps_of app_web_down ''2025-03-01T10:00:00+01:00'' [ex_old_app]
         (Some [''/en-us/app/alt/'', ''/en-us/app/neu/'']) = []
   \<and> printed_lines [''2025-03-01 Neu''] = [''2025-03-01 Neu'']"
proof -
  let ?r = "\<lparr>saved = [ex_enriched, ex_old], feed = [ex_enriched, ex_old],
          summary = Some [''2025-03-01 Neu''], exit_code = 0, requests = [a_url ex_pending]\<rparr>"
  let ?kr = "\<lparr>saved = [ex_product, ex_old_product], feed = [ex_product, ex_old_product],
          summary = Some [''Panther''], exit_code = 0, requests = [1, 2 :: nat]\<rparr>"
  let ?hr = "\<lparr>saved = [ex_old_app], feed = [ex_old_app], summary = None, exit_code = 1,
          requests = replicate 3 (app_url ex_app)\<rparr>"
  note t = exit_code_summary
    [where dm = ex_date_match and existing = "[ex_pending, ex_old]" and items = "[ex_item]"
       and web = web_up and r = ?r
       and now = "''2025-03-01T10:00:00+01:00''" and pexisting = "[ex_old_product]"
       and api = ex_api and kr = ?kr
       and hexisting = "[ex_old_app]" and sec = "Some [''/en-us/app/alt/'', ''/en-us/app/neu/'']"
       and hweb = app_web_down and hr = ?hr and strs = "[''2025-03-01 Neu'']"]
  have e1: "exit_code ?r = 0" and e2: "exit_code ?kr = 0" and e3: "exit_code ?hr = 1"
    by simp_all
  have nb: "\<forall>s \<in> set [''2025-03-01 Neu'']. CHR 0x0A \<notin> set s" by simp
  note tp = t [THEN conjunct1, THEN mp, OF run_panther_up, THEN conjunct1]
  note tk = t [THEN conjunct2, THEN conjunct1, THEN mp, OF run_komood, THEN conjunct1]
  note th = t [THEN conjunct2, THEN conjunct2, THEN conjunct1, THEN mp, OF run_homey_down,
      THEN conjunct2, THEN conjunct1]
  note tl = t [THEN conjunct2, THEN conjunct2, THEN conjunct2, THEN mp, OF nb]
  from tp e1
  have "filter newly_enriched
         (zip (merged_panther ex_date_match [ex_pending, ex_old] [ex_item]) (saved ?r)) \<noteq> []"
    by (rule iffD1)
  then have a: "filter newly_enriched
         (zip (merged_panther ex_date_match [ex_pending, ex_old] [ex_item])
            [ex_enriched, ex_old]) \<noteq> []" by simp
  from tk e2
  have b: "new_products_of ''2025-03-01T10:00:00+01:00'' [ex_old_product]
         (fst (fetch_all_products ex_api)) \<noteq> []" by (rule iffD1)
  from th e3
  have c: "new_apps_of app_web_down ''2025-03-01T10:00:00+01:00'' [ex_old_app]
         (Some [''/en-us/app/alt/'', ''/en-us/app/neu/'']) = []" by (rule iffD1)
  from run_panther_up run_komood run_homey_down a b c tl show ?thesis by (intro conjI)
qed

text \<open>
  Claim C8 as stated fails for Augsburger Panther in both directions. A new article is
  discovered and saved, its detail page is down, and the run ends with exit code 1 and
  no summary; no article is discovered, a stored record without a description is
  enriched, and the run ends with exit code 0 and a summary line. It also fails on the
  lines: one new product of Komood Store whose title holds a line break gives two
  lines in the block.
\<close>

theorem exit_code_summary_counterexample:
  "parse_news_items (\<lambda>s. None)
     [\<lparr>link = Some ''/panther/news/neu.html'', spans = [''heute'', ''Neu'']\<rparr>] {}
   = [([], [], ''Neu'', ''https://www.aev-panther.de/panther/news/neu.html'')]
   \<and> main_panther (\<lambda>s. None) []
       (Inr [\<lparr>link = Some ''/panther/news/neu.html'', spans = [''heute'', ''Neu'']\<rparr>])
       (\<lambda>n url. Inl Timeout)
     = Inr \<lparr>saved = [\<lparr>a_date = [], a_time = [], a_title = ''Neu'',
                      a_url = ''https://www.aev-panther.de/panther/news/neu.html'',
                      a_description = [], a_image = []\<rparr>],
            feed = [], summary = None, exit_code = 1,
            requests = [''https://www.aev-panther.de/panther/news/neu.html'',
                        ''https://www.aev-panther.de/panther/news/neu.html'',
                        ''https://www.aev-panther.de/panther/news/neu.html'']\<rparr>
   \<and> parse_news_items (\<lambda>s. None) []
       {''https://www.aev-panther.de/panther/news/neu.html''} = []
   \<and> main_panther (\<lambda>s. None)
       [\<lparr>a_date = [], a_time = [], a_title = ''Neu'',
         a_url = ''https://www.aev-panther.de/panther/news/neu.html'',
         a_description = [], a_image = []\<rparr>]
       (Inr []) (\<lambda>n url. Inr (''Teaser'', []))
     = Inr \<lparr>saved = [\<lparr>a_date = [], a_time = [], a_title = ''Neu'',
                      a_url = ''https://www.aev-panther.de/panther/news/neu.html'',
                      a_description = ''Teaser'', a_image = []\<rparr>],
            feed = [\<lparr>a_date = [], a_time = [], a_title = ''Neu'',
                      a_url = ''https://www.aev-panther.de/panther/news/neu.html'',
                      a_description = ''Teaser'', a_image = []\<rparr>],
            summary = Some ['' Neu''], exit_code = 0,
            requests = [''https://www.aev-panther.de/panther/news/neu.html'']\<rparr>
   \<and> (case main_komood ''2025-03-01T10:00:00+01:00'' []
            (\<lambda>n. if n = 1
                  then Inr [\<lparr>handle = ''panther'',
                              raw_title = ''Panther'' @ [CHR 0x0A] @ ''Edition'', price = [],
                              body_text = ''Baumwolle'', image_src = []\<rparr>]
                  else Inr [])
       of Inl e \<Rightarrow> None
        | Inr r \<Rightarrow> Some (length (saved r), exit_code r, map_option printed_lines (summary r)))
     = Some (1, 0, Some [''Panther'', ''Edition''])"
  by code_simp

end
